theory Spec2Isabelle
  imports Complex_Main "HOL-Library.AList"
begin

section \<open>Track geometry (src/lib/trackGeometry.ts)\<close>

text \<open>
  A GeoJSON position is read by the code only through its components 0 and 1, so it is a
  pair (longitude, latitude). JavaScript numbers are modelled by the reals; the value
  Infinity, with which the nearest-point search starts, is a constructor of its own.
\<close>

type_synonym Position = "real \<times> real"

record LineSegment =
  lineName :: string
  coordinates :: "Position list"

datatype number = Finite real | Infinity

text \<open>\<open>d < x\<close> for a finite \<open>d\<close> and a possibly infinite \<open>x\<close>.\<close>

fun less_number :: "number \<Rightarrow> number \<Rightarrow> bool" where
  "less_number (Finite a) (Finite b) = (a < b)"
| "less_number (Finite a) Infinity = True"
| "less_number Infinity _ = False"

fun add_number :: "number \<Rightarrow> number \<Rightarrow> number" where
  "add_number (Finite a) (Finite b) = Finite (a + b)"
| "add_number _ _ = Infinity"

definition distance :: "Position \<Rightarrow> Position \<Rightarrow> real" where
  "distance a b = (let dx = fst a - fst b; dy = snd a - snd b in sqrt (dx * dx + dy * dy))"

text \<open>
  \<open>Array.prototype.slice(start, end)\<close>: a negative index counts from the end, both are
  clamped to the array, and an empty range gives the empty array.
\<close>

definition slice :: "'a list \<Rightarrow> int \<Rightarrow> int \<Rightarrow> 'a list" where
  "slice xs start end =
     (let len = int (length xs);
          k = (if start < 0 then max (len + start) 0 else min start len);
          fin = (if end < 0 then max (len + end) 0 else min end len)
      in take (nat (fin - k)) (drop (nat k) xs))"

text \<open>\<open>slice(start)\<close>, with the end left out.\<close>

definition slice_from :: "'a list \<Rightarrow> int \<Rightarrow> 'a list" where
  "slice_from xs start = slice xs start (int (length xs))"

subsection \<open>findTrackPath\<close>

text \<open>
  The state of the inner loop is \<open>(fromIdx, toIdx, fromDist, toDist)\<close>; \<open>nearestStep\<close> is
  the loop body at index \<open>i\<close>, \<open>nearestScan\<close> the loop over \<open>i = 0 .. coords.length - 1\<close>.
\<close>

type_synonym scan_state = "int \<times> int \<times> number \<times> number"

definition nearestStep :: "Position list \<Rightarrow> Position \<Rightarrow> Position \<Rightarrow> nat \<Rightarrow> scan_state \<Rightarrow> scan_state" where
  "nearestStep coords from to i st =
     (case st of (fromIdx, toIdx, fromDist, toDist) \<Rightarrow>
        let d1 = distance (coords ! i) from;
            d2 = distance (coords ! i) to;
            (fromDist', fromIdx') =
               (if less_number (Finite d1) fromDist then (Finite d1, int i) else (fromDist, fromIdx));
            (toDist', toIdx') =
               (if less_number (Finite d2) toDist then (Finite d2, int i) else (toDist, toIdx))
        in (fromIdx', toIdx', fromDist', toDist'))"

definition nearestScan :: "Position list \<Rightarrow> Position \<Rightarrow> Position \<Rightarrow> scan_state" where
  "nearestScan coords from to =
     fold (nearestStep coords from to) [0..<length coords] (- 1, - 1, Infinity, Infinity)"

text \<open>
  The state of the outer loop is \<open>(bestSegment, bestFromIdx, bestToIdx, bestScore)\<close>;
  \<open>bestStep\<close> is its body for one segment.
\<close>

type_synonym best_state = "LineSegment option \<times> int \<times> int \<times> number"

definition bestStep :: "Position \<Rightarrow> Position \<Rightarrow> LineSegment \<Rightarrow> best_state \<Rightarrow> best_state" where
  "bestStep from to segment st =
     (case st of (bestSegment, bestFromIdx, bestToIdx, bestScore) \<Rightarrow>
        case nearestScan (coordinates segment) from to of (fromIdx, toIdx, fromDist, toDist) \<Rightarrow>
          let score = add_number fromDist toDist
          in if less_number score bestScore \<and> fromIdx \<noteq> toIdx
             then (Some segment, fromIdx, toIdx, score)
             else st)"

definition bestScan :: "LineSegment list \<Rightarrow> Position \<Rightarrow> Position \<Rightarrow> best_state" where
  "bestScan segments from to = fold (bestStep from to) segments (None, - 1, - 1, Infinity)"

text \<open>
  The module's index \<open>lineSegments\<close> is built once from a data file and read-only
  afterwards; it is a parameter here.
\<close>

definition findTrackPath ::
  "(string \<rightharpoonup> LineSegment list) \<Rightarrow> Position \<Rightarrow> Position \<Rightarrow> string \<Rightarrow> Position list option" where
  "findTrackPath lineSegments from to name =
     (case lineSegments name of
        None \<Rightarrow> None
      | Some segments \<Rightarrow>
          if segments = [] then None
          else case bestScan segments from to of
            (bestSegment, bestFromIdx, bestToIdx, bestScore) \<Rightarrow>
              (case bestSegment of
                 None \<Rightarrow> None
               | Some seg \<Rightarrow>
                   if bestFromIdx = - 1 \<or> bestToIdx = - 1 then None
                   else
                     let coords = coordinates seg;
                         startIdx = min bestFromIdx bestToIdx;
                         endIdx = max bestFromIdx bestToIdx;
                         path = slice coords startIdx (endIdx + 1)
                     in Some (if bestFromIdx > bestToIdx then rev path else path)))"

subsection \<open>interpolateAlongPath\<close>

definition segmentLengths :: "Position list \<Rightarrow> real list" where
  "segmentLengths path = map (\<lambda>i. distance (path ! (i - 1)) (path ! i)) [1..<length path]"

text \<open>The second loop, from index \<open>i\<close> with \<open>currentDist\<close> accumulated so far.\<close>

function walkPath :: "Position list \<Rightarrow> real list \<Rightarrow> real \<Rightarrow> nat \<Rightarrow> real \<Rightarrow> Position" where
  "walkPath path segLens targetDist i currentDist =
     (if i < length segLens then
        (let segLen = segLens ! i in
         if currentDist + segLen \<ge> targetDist then
           (let segProgress = (targetDist - currentDist) / segLen;
                p1 = path ! i;
                p2 = path ! (i + 1)
            in (fst p1 + (fst p2 - fst p1) * segProgress,
                snd p1 + (snd p2 - snd p1) * segProgress))
         else walkPath path segLens targetDist (i + 1) (currentDist + segLen))
      else (fst (path ! (length path - 1)), snd (path ! (length path - 1))))"
  by pat_completeness auto
termination
  by (relation "measure (\<lambda>(path, segLens, targetDist, i, currentDist). length segLens - i)") auto

declare walkPath.simps [simp del]

definition interpolateAlongPath :: "Position list \<Rightarrow> real \<Rightarrow> Position" where
  "interpolateAlongPath path progress =
     (if length path = 0 then (0, 0)
      else if length path = 1 then (fst (path ! 0), snd (path ! 0))
      else if progress \<le> 0 then (fst (path ! 0), snd (path ! 0))
      else if progress \<ge> 1 then (fst (path ! (length path - 1)), snd (path ! (length path - 1)))
      else
        let segLens = segmentLengths path;
            totalLength = sum_list segLens
        in if totalLength = 0 then (fst (path ! 0), snd (path ! 0))
           else walkPath path segLens (progress * totalLength) 0 0)"

text \<open>\<open>LINE_ID_TO_NAME[lineId] || lineId\<close>.\<close>

definition LINE_ID_TO_NAME :: "(string \<times> string) list" where
  "LINE_ID_TO_NAME =
     [(''bakerloo'', ''Bakerloo''), (''central'', ''Central''), (''circle'', ''Circle''),
      (''district'', ''District''), (''hammersmith-city'', ''Hammersmith & City''),
      (''jubilee'', ''Jubilee''), (''metropolitan'', ''Metropolitan''),
      (''northern'', ''Northern''), (''piccadilly'', ''Piccadilly''),
      (''victoria'', ''Victoria''), (''waterloo-city'', ''Waterloo & City'')]"

definition getLineDisplayName :: "string \<Rightarrow> string" where
  "getLineDisplayName lineId =
     (case map_of LINE_ID_TO_NAME lineId of Some n \<Rightarrow> n | None \<Rightarrow> lineId)"


section \<open>Animation store, track-path variant (hooks/useTrainPositions.ts)\<close>

text \<open>
  Timestamps are the integers of \<open>Date.now()\<close> (milliseconds). The field \<open>id\<close> of a train
  is written \<open>id'\<close>, since \<open>id\<close> is the identity function of HOL.
\<close>

record Train =
  id' :: string
  lineId :: string
  lineName :: string
  currentStation :: string
  destination :: string
  timeToStation :: real
  direction :: string
  vehicleId :: string
  naptanId :: string

record TrainKeyframe =
  position :: Position
  timestamp :: int

record TrainState =
  current :: TrainKeyframe
  previous :: "TrainKeyframe option"
  train :: Train
  trail :: "Position list"
  trackPath :: "Position list option"
  lastInterpolatedPosition :: "Position option"
  velocity :: Position

text \<open>
  \<open>trainStates\<close> is a JavaScript \<open>Map\<close>: keys in insertion order, \<open>set\<close> on a present
  key replaces the value in place (\<open>AList.update\<close>), \<open>get\<close> is \<open>map_of\<close>.
\<close>

type_synonym TrainStates = "(string \<times> TrainState) list"

datatype error = TypeError

definition easeInOutQuad :: "real \<Rightarrow> real" where
  "easeInOutQuad t = (if t < 0.5 then 2 * t * t else 1 - (- 2 * t + 2) ^ 2 / 2)"

definition lerp :: "real \<Rightarrow> real \<Rightarrow> real \<Rightarrow> real" where
  "lerp a b t = a + (b - a) * t"

text \<open>\<open>smoothDamp\<close> returns the object \<open>{ value, velocity }\<close>, here the pair in that order.\<close>

definition smoothDamp :: "real \<Rightarrow> real \<Rightarrow> real \<Rightarrow> real \<Rightarrow> real \<Rightarrow> real \<times> real" where
  "smoothDamp cur target vel smoothTime deltaTime =
     (let omega = 2 / smoothTime;
          x = omega * deltaTime;
          exp = 1 / (1 + x + 0.48 * x * x + 0.235 * x * x * x);
          change = cur - target;
          temp = (vel + omega * change) * deltaTime;
          newVelocity = (vel - omega * temp) * exp;
          newValue = target + (change + temp) * exp
      in if (target - cur > 0) = (newValue > target) then (target, 0)
         else (newValue, newVelocity))"

definition ANIMATION_DURATION :: real where
  "ANIMATION_DURATION = 14000"

definition TRAIL_LENGTH :: int where
  "TRAIL_LENGTH = 20"

definition SMOOTH_TIME :: real where
  "SMOOTH_TIME = 0.5"

text \<open>
  The body of \<open>trains.forEach\<close> in the data effect. \<open>getStationCoordinates\<close> (the station
  lookup of lib/stationLookup.ts, over a data file) and the index \<open>lineSegments\<close> are
  parameters; \<open>now\<close> is the \<open>Date.now()\<close> read once before the loop.
\<close>

definition ingestTrain ::
  "(string \<Rightarrow> Position option) \<Rightarrow> (string \<rightharpoonup> LineSegment list) \<Rightarrow> int \<Rightarrow> Train \<Rightarrow>
   TrainStates \<Rightarrow> TrainStates" where
  "ingestTrain getStationCoordinates lineSegments now tr states =
     (case getStationCoordinates (currentStation tr) of
        None \<Rightarrow> states
      | Some coords \<Rightarrow>
          (case map_of states (id' tr) of
             Some existing \<Rightarrow>
               let posChanged =
                     (fst coords \<noteq> fst (position (current existing)) \<or>
                      snd coords \<noteq> snd (position (current existing)))
               in if posChanged then
                    let startPosition =
                          (case lastInterpolatedPosition existing of
                             Some p \<Rightarrow> p
                           | None \<Rightarrow> position (current existing));
                        name = getLineDisplayName (lineId tr);
                        path = findTrackPath lineSegments startPosition coords name
                    in AList.update (id' tr)
                         \<lparr> current = \<lparr> position = coords, timestamp = now \<rparr>,
                           previous = Some \<lparr> position = startPosition,
                                             timestamp = timestamp (current existing) \<rparr>,
                           train = tr,
                           trail = trail existing,
                           trackPath = path,
                           lastInterpolatedPosition = Some startPosition,
                           velocity = velocity existing \<rparr> states
                  else AList.update (id' tr) (existing \<lparr> train := tr \<rparr>) states
           | None \<Rightarrow>
               AList.update (id' tr)
                 \<lparr> current = \<lparr> position = coords, timestamp = now \<rparr>,
                   previous = None,
                   train = tr,
                   trail = [coords],
                   trackPath = None,
                   lastInterpolatedPosition = Some coords,
                   velocity = (0, 0) \<rparr> states))"

text \<open>
  The data effect: nothing when \<open>trains\<close> is undefined; otherwise every train in order,
  then the removal of every record whose id is not in the batch.
\<close>

definition ingest ::
  "(string \<Rightarrow> Position option) \<Rightarrow> (string \<rightharpoonup> LineSegment list) \<Rightarrow> int \<Rightarrow> Train list option \<Rightarrow>
   TrainStates \<Rightarrow> TrainStates" where
  "ingest getStationCoordinates lineSegments now trains states =
     (case trains of
        None \<Rightarrow> states
      | Some ts \<Rightarrow>
          let states' = fold (ingestTrain getStationCoordinates lineSegments now) ts states;
              currentIds = set (map id' ts)
          in filter (\<lambda>(k, st). k \<in> currentIds) states')"

text \<open>
  The body of \<open>trainStates.current.forEach\<close> in \<open>animate\<close>, as far as it changes the
  record. Reading \<open>trail[trail.length - 1]\<close> of an empty trail gives \<open>undefined\<close>, and its
  component 0 raises a TypeError. The heading and the list handed to \<open>setPositions\<close> are
  outputs for rendering and not part of the store.
\<close>

definition animateTrain :: "int \<Rightarrow> real \<Rightarrow> TrainState \<Rightarrow> error + TrainState" where
  "animateTrain now deltaTime state =
     (case previous state of
        Some prev \<Rightarrow>
          let elapsed = now - timestamp (current state);
              rawProgress = min (real_of_int elapsed / ANIMATION_DURATION) 1;
              progress = easeInOutQuad rawProgress;
              targetPosition =
                (case trackPath state of
                   Some tp \<Rightarrow>
                     if length tp \<ge> 2 then interpolateAlongPath tp progress
                     else (lerp (fst (position prev)) (fst (position (current state))) progress,
                           lerp (snd (position prev)) (snd (position (current state))) progress)
                 | None \<Rightarrow>
                     (lerp (fst (position prev)) (fst (position (current state))) progress,
                      lerp (snd (position prev)) (snd (position (current state))) progress));
              currentPos =
                (case lastInterpolatedPosition state of Some p \<Rightarrow> p | None \<Rightarrow> position prev);
              smoothX = smoothDamp (fst currentPos) (fst targetPosition) (fst (velocity state))
                          SMOOTH_TIME deltaTime;
              smoothY = smoothDamp (snd currentPos) (snd targetPosition) (snd (velocity state))
                          SMOOTH_TIME deltaTime;
              pos = (fst smoothX, fst smoothY);
              state' = state \<lparr> velocity := (snd smoothX, snd smoothY),
                               lastInterpolatedPosition := Some pos \<rparr>
          in if trail state = [] then Inl TypeError
             else
               let lastTrailPos = trail state ! (length (trail state) - 1);
                   dist = \<bar>fst pos - fst lastTrailPos\<bar> + \<bar>snd pos - snd lastTrailPos\<bar>
               in if dist > 0.00003
                  then Inr (state' \<lparr> trail := slice_from (trail state @ [pos]) (- TRAIL_LENGTH) \<rparr>)
                  else Inr state'
      | None \<Rightarrow>
          Inr (state \<lparr> lastInterpolatedPosition := Some (position (current state)),
                       velocity := (0, 0) \<rparr>))"

text \<open>The \<open>forEach\<close> over the map: records in order, stopping at the first exception.\<close>

fun animateAll :: "int \<Rightarrow> real \<Rightarrow> TrainStates \<Rightarrow> error + TrainStates" where
  "animateAll now deltaTime [] = Inr []"
| "animateAll now deltaTime ((k, state) # rest) =
     (case animateTrain now deltaTime state of
        Inl e \<Rightarrow> Inl e
      | Inr state' \<Rightarrow>
          (case animateAll now deltaTime rest of
             Inl e \<Rightarrow> Inl e
           | Inr rest' \<Rightarrow> Inr ((k, state') # rest')))"

text \<open>
  One frame. The state is the store together with the module variable \<open>lastFrameTime\<close>.
\<close>

definition animate :: "int \<Rightarrow> TrainStates \<times> int \<Rightarrow> error + TrainStates \<times> int" where
  "animate now st =
     (case st of (states, lastFrameTime) \<Rightarrow>
        let deltaTime = min (real_of_int (now - lastFrameTime) / 1000) 0.1
        in case animateAll now deltaTime states of
             Inl e \<Rightarrow> Inl e
           | Inr states' \<Rightarrow> Inr (states', now))"

text \<open>
  The two triggers that touch the store, and a run of them from a given state: a data
  arrival with its time and batch, or a frame with its time.
\<close>

datatype event = Ingest int "Train list option" | Tick int

fun run ::
  "(string \<Rightarrow> Position option) \<Rightarrow> (string \<rightharpoonup> LineSegment list) \<Rightarrow> event list \<Rightarrow>
   TrainStates \<times> int \<Rightarrow> error + TrainStates \<times> int" where
  "run look segs [] st = Inr st"
| "run look segs (Ingest now trains # es) st =
     run look segs es (ingest look segs now trains (fst st), snd st)"
| "run look segs (Tick now # es) st =
     (case animate now st of Inl e \<Rightarrow> Inl e | Inr st' \<Rightarrow> run look segs es st')"

section \<open>Animation store, straight-line variant with a grace window\<close>

text \<open>
  The second \<open>useTrainPositions\<close> of the repository. Its keyframe carries
  \<open>timeToStation\<close>, its record has neither a track path nor a rendered position.
\<close>

record TrainKeyframe2 =
  position2 :: Position
  timestamp2 :: int
  timeToStation2 :: real

record TrainState2 =
  current2 :: TrainKeyframe2
  previous2 :: "TrainKeyframe2 option"
  train2 :: Train
  trail2 :: "Position list"
  velocity2 :: Position

definition PREDICTION_SPEED :: real where
  "PREDICTION_SPEED = 0.00001"

definition ingestTrain2 ::
  "(string \<Rightarrow> Position option) \<Rightarrow> int \<Rightarrow> Train \<Rightarrow> (string \<times> TrainState2) list \<Rightarrow>
   (string \<times> TrainState2) list" where
  "ingestTrain2 getStationCoordinates now tr states =
     (case getStationCoordinates (currentStation tr) of
        None \<Rightarrow> states
      | Some coords \<Rightarrow>
          (case map_of states (id' tr) of
             Some existing \<Rightarrow>
               let dx = fst coords - fst (position2 (current2 existing));
                   dy = snd coords - snd (position2 (current2 existing));
                   dist = sqrt (dx * dx + dy * dy);
                   vel = (if dist > 0.0001
                          then (dx / dist * PREDICTION_SPEED, dy / dist * PREDICTION_SPEED)
                          else velocity2 existing)
               in AList.update (id' tr)
                    \<lparr> current2 = \<lparr> position2 = coords, timestamp2 = now,
                                     timeToStation2 = timeToStation tr \<rparr>,
                      previous2 = Some (current2 existing),
                      train2 = tr,
                      trail2 = trail2 existing,
                      velocity2 = vel \<rparr> states
           | None \<Rightarrow>
               AList.update (id' tr)
                 \<lparr> current2 = \<lparr> position2 = coords, timestamp2 = now,
                                  timeToStation2 = timeToStation tr \<rparr>,
                   previous2 = None,
                   train2 = tr,
                   trail2 = [coords],
                   velocity2 = (0, 0) \<rparr> states))"

definition ingest2 ::
  "(string \<Rightarrow> Position option) \<Rightarrow> int \<Rightarrow> Train list option \<Rightarrow> (string \<times> TrainState2) list \<Rightarrow>
   (string \<times> TrainState2) list" where
  "ingest2 getStationCoordinates now trains states =
     (case trains of
        None \<Rightarrow> states
      | Some ts \<Rightarrow>
          let states' = fold (ingestTrain2 getStationCoordinates now) ts states;
              currentIds = set (map id' ts)
          in filter (\<lambda>(k, st). \<not> (k \<notin> currentIds \<and> now - timestamp2 (current2 st) > 60000)) states')"


section \<open>Notions used to state the properties\<close>

text \<open>
  \<open>walkLocate\<close> is the second loop of \<open>interpolateAlongPath\<close> once more, returning where
  it stops instead of the point there: the segment index and \<open>segProgress\<close>, or nothing
  when the loop falls through to the end of the path.
\<close>

function walkLocate :: "real list \<Rightarrow> real \<Rightarrow> nat \<Rightarrow> real \<Rightarrow> (nat \<times> real) option" where
  "walkLocate segLens targetDist i currentDist =
     (if i < length segLens then
        (let segLen = segLens ! i in
         if currentDist + segLen \<ge> targetDist then
           Some (i, (targetDist - currentDist) / segLen)
         else walkLocate segLens targetDist (i + 1) (currentDist + segLen))
      else None)"
  by pat_completeness auto
termination
  by (relation "measure (\<lambda>(segLens, targetDist, i, currentDist). length segLens - i)") auto

declare walkLocate.simps [simp del]

text \<open>
  The arc length from the start of the path to the point that \<open>interpolateAlongPath\<close>
  returns, branch by branch: the lengths of the segments walked over plus the fraction
  \<open>segProgress\<close> of the segment reached.
\<close>

definition traveled :: "Position list \<Rightarrow> real \<Rightarrow> real" where
  "traveled path progress =
     (if length path = 0 then 0
      else if length path = 1 then 0
      else if progress \<le> 0 then 0
      else if progress \<ge> 1 then sum_list (segmentLengths path)
      else
        let segLens = segmentLengths path;
            totalLength = sum_list segLens
        in if totalLength = 0 then 0
           else case walkLocate segLens (progress * totalLength) 0 0 of
                  Some (i, segProgress) \<Rightarrow> sum_list (take i segLens) + segProgress * (segLens ! i)
                | None \<Rightarrow> totalLength)"

text \<open>
  The nearest index of a polyline to a point: the first index at which the distance to
  the point is least. This is the index the strict comparison of the inner loop keeps.
\<close>

definition is_nearest :: "Position list \<Rightarrow> Position \<Rightarrow> nat \<Rightarrow> bool" where
  "is_nearest coords p i \<longleftrightarrow>
     i < length coords \<and>
     (\<forall>k < length coords. distance (coords ! i) p \<le> distance (coords ! k) p) \<and>
     (\<forall>k < i. distance (coords ! i) p < distance (coords ! k) p)"

text \<open>Both points have the same nearest index on the polyline (none, if it is empty).\<close>

definition coincide :: "Position list \<Rightarrow> Position \<Rightarrow> Position \<Rightarrow> bool" where
  "coincide cs a b \<longleftrightarrow> (\<forall>i j. is_nearest cs a i \<and> is_nearest cs b j \<longrightarrow> i = j)"

text \<open>
  The inclusive stretch of a polyline between two indices, from the first index towards
  the second.
\<close>

definition pathBetween :: "Position list \<Rightarrow> nat \<Rightarrow> nat \<Rightarrow> Position list" where
  "pathBetween cs i j =
     (if i > j then rev (map ((!) cs) [j..<Suc i]) else map ((!) cs) [i..<Suc j])"

text \<open>Exchanging the roles of the two points in the state of the inner loop.\<close>

definition swap_scan :: "scan_state \<Rightarrow> scan_state" where
  "swap_scan st = (case st of (a, b, c, d) \<Rightarrow> (b, a, d, c))"

text \<open>The state of the inner loop after the indices below \<open>n\<close>, for one of the points.\<close>

definition near_upto :: "Position list \<Rightarrow> Position \<Rightarrow> nat \<Rightarrow> int \<Rightarrow> number \<Rightarrow> bool" where
  "near_upto cs p n idx d \<longleftrightarrow>
     (if n = 0 then idx = - 1 \<and> d = Infinity
      else 0 \<le> idx \<and> nat idx < n \<and> d = Finite (distance (cs ! nat idx) p) \<and>
           (\<forall>k < n. distance (cs ! nat idx) p \<le> distance (cs ! k) p) \<and>
           (\<forall>k < nat idx. distance (cs ! nat idx) p < distance (cs ! k) p))"

text \<open>The state of the outer loop after the segments \<open>ss\<close>.\<close>

definition best_inv :: "LineSegment list \<Rightarrow> Position \<Rightarrow> Position \<Rightarrow> best_state \<Rightarrow> bool" where
  "best_inv ss a b st \<longleftrightarrow>
     (st = (None, - 1, - 1, Infinity) \<and> (\<forall>s \<in> set ss. coincide (coordinates s) a b)) \<or>
     (\<exists>seg i j. st = (Some seg, int i, int j,
                        Finite (distance (coordinates seg ! i) a + distance (coordinates seg ! j) b)) \<and>
        seg \<in> set ss \<and> is_nearest (coordinates seg) a i \<and> is_nearest (coordinates seg) b j \<and> i \<noteq> j \<and>
        (\<forall>s \<in> set ss. \<forall>i' j'. is_nearest (coordinates s) a i' \<and> is_nearest (coordinates s) b j' \<and> i' \<noteq> j' \<longrightarrow>
            distance (coordinates seg ! i) a + distance (coordinates seg ! j) b
              \<le> distance (coordinates s ! i') a + distance (coordinates s ! j') b))"

text \<open>A line with one polyline of three points, for the examples.\<close>

definition seg0 :: LineSegment where
  "seg0 = \<lparr> LineSegment.lineName = ''Central'', coordinates = [(0, 0), (1, 0), (2, 0)] \<rparr>"

definition idx0 :: "string \<rightharpoonup> LineSegment list" where
  "idx0 = [''Central'' \<mapsto> [seg0]]"

text \<open>The record a station change puts in place of \<open>existing\<close>.\<close>

definition transitioned ::
  "(string \<rightharpoonup> LineSegment list) \<Rightarrow> int \<Rightarrow> Train \<Rightarrow> Position \<Rightarrow> TrainState \<Rightarrow> TrainState" where
  "transitioned segs now tr coords existing =
     (let start = (case lastInterpolatedPosition existing of
                     Some p \<Rightarrow> p | None \<Rightarrow> position (current existing))
      in \<lparr> current = \<lparr> position = coords, timestamp = now \<rparr>,
           previous = Some \<lparr> position = start, timestamp = timestamp (current existing) \<rparr>,
           train = tr,
           trail = trail existing,
           trackPath = findTrackPath segs start coords (getLineDisplayName (lineId tr)),
           lastInterpolatedPosition = Some start,
           velocity = velocity existing \<rparr>)"

text \<open>The invariant of the trail of a record.\<close>

definition trail_ok :: "TrainState \<Rightarrow> bool" where
  "trail_ok st \<longleftrightarrow> trail st \<noteq> [] \<and> int (length (trail st)) \<le> TRAIL_LENGTH"

text \<open>The invariant of the store: every record has a trail within the bound.\<close>

definition trails_ok :: "TrainStates \<Rightarrow> bool" where
  "trails_ok states \<longleftrightarrow> (\<forall>(k, st) \<in> set states. trail_ok st)"

text \<open>A station lookup that knows two stations, a train reported at a station, and records of it, for the examples.\<close>

definition look0 :: "string \<Rightarrow> Position option" where
  "look0 name = (if name = ''A'' then Some (0, 0) else if name = ''B'' then Some (2, 0) else None)"

definition trainAt :: "string \<Rightarrow> Train" where
  "trainAt station =
     \<lparr> id' = ''v1'', lineId = ''central'', lineName = ''Central'', currentStation = station,
       destination = ''Z'', timeToStation = 60, direction = ''outbound'', vehicleId = ''1'',
       naptanId = ''n'' \<rparr>"

definition state0 :: TrainState where
  "state0 =
     \<lparr> current = \<lparr> position = (0, 0), timestamp = 1000 \<rparr>, previous = None,
       train = trainAt ''A'', trail = [(0, 0)], trackPath = None,
       lastInterpolatedPosition = Some (0, 0), velocity = (0, 0) \<rparr>"

definition state1 :: TrainState where
  "state1 = state0 \<lparr> velocity := (3, 4) \<rparr>"

definition stateB :: TrainState where
  "stateB =
     \<lparr> current = \<lparr> position = (2, 0), timestamp = 2000 \<rparr>,
       previous = Some \<lparr> position = (0, 0), timestamp = 1000 \<rparr>,
       train = trainAt ''B'', trail = [(0, 0)], trackPath = None,
       lastInterpolatedPosition = Some (0, 0), velocity = (0, 0) \<rparr>"

definition state2 :: TrainState2 where
  "state2 =
     \<lparr> current2 = \<lparr> position2 = (0, 0), timestamp2 = 1000, timeToStation2 = 60 \<rparr>,
       previous2 = None, train2 = trainAt ''A'', trail2 = [(0, 0)], velocity2 = (0, 0) \<rparr>"

definition events0 :: "event list" where
  "events0 = [Ingest 1000 (Some [trainAt ''A'']), Ingest 2000 (Some [trainAt ''B'']), Tick 9000]"

section \<open>The path resolver\<close>


lemma is_nearest_unique: "is_nearest cs p i \<Longrightarrow> is_nearest cs p j \<Longrightarrow> i = j"
  unfolding is_nearest_def
  by (metis linorder_neqE_nat not_less)

lemma nearestStep_swap:
  "nearestStep cs to from i (swap_scan st) = swap_scan (nearestStep cs from to i st)"
  by (cases st) (simp add: nearestStep_def swap_scan_def Let_def split: prod.splits)

lemma fold_nearestStep_swap:
  "fold (nearestStep cs to from) is (swap_scan st) = swap_scan (fold (nearestStep cs from to) is st)"
  by (induction "is" arbitrary: st) (simp_all add: nearestStep_swap)

lemma nearestScan_swap: "nearestScan cs to from = swap_scan (nearestScan cs from to)"
  using fold_nearestStep_swap [of cs to "from" "[0..<length cs]" "(- 1, - 1, Infinity, Infinity)"]
  by (simp add: nearestScan_def swap_scan_def)

lemma near_upto_step:
  assumes "near_upto cs p n idx d"
  shows "near_upto cs p (Suc n)
           (if less_number (Finite (distance (cs ! n) p)) d then int n else idx)
           (if less_number (Finite (distance (cs ! n) p)) d then Finite (distance (cs ! n) p) else d)"
proof (cases "n = 0")
  case True
  with assms show ?thesis by (simp add: near_upto_def)
next
  case False
  with assms have h: "0 \<le> idx" "nat idx < n" "d = Finite (distance (cs ! nat idx) p)"
    "\<forall>k < n. distance (cs ! nat idx) p \<le> distance (cs ! k) p"
    "\<forall>k < nat idx. distance (cs ! nat idx) p < distance (cs ! k) p"
    by (simp_all add: near_upto_def)
  show ?thesis
  proof (cases "distance (cs ! n) p < distance (cs ! nat idx) p")
    case True
    have "\<forall>k < Suc n. distance (cs ! n) p \<le> distance (cs ! k) p"
      using True h(4) by (metis less_Suc_eq less_eq_real_def order_less_le_trans)
    moreover have "\<forall>k < n. distance (cs ! n) p < distance (cs ! k) p"
      using True h(4) by (meson order_less_le_trans)
    ultimately show ?thesis using True h(3) by (simp add: near_upto_def)
  next
    case False
    have "\<forall>k < Suc n. distance (cs ! nat idx) p \<le> distance (cs ! k) p"
      using False h(4) by (metis less_Suc_eq not_less)
    then show ?thesis using False h by (simp add: near_upto_def)
  qed
qed

lemma nearestStep_tuple:
  "nearestStep cs from to i (fi, ti, fd, td) =
     ((if less_number (Finite (distance (cs ! i) from)) fd then int i else fi),
      (if less_number (Finite (distance (cs ! i) to)) td then int i else ti),
      (if less_number (Finite (distance (cs ! i) from)) fd then Finite (distance (cs ! i) from) else fd),
      (if less_number (Finite (distance (cs ! i) to)) td then Finite (distance (cs ! i) to) else td))"
  by (simp add: nearestStep_def Let_def)

lemma fold_nearest_inv:
  "case fold (nearestStep cs from to) [0..<n] (- 1, - 1, Infinity, Infinity) of
     (fi, ti, fd, td) \<Rightarrow> near_upto cs from n fi fd \<and> near_upto cs to n ti td"
proof (induction n)
  case 0
  show ?case by (simp add: near_upto_def)
next
  case (Suc n)
  obtain fi ti fd td where st:
    "fold (nearestStep cs from to) [0..<n] (- 1, - 1, Infinity, Infinity) = (fi, ti, fd, td)"
    by (metis prod_cases4)
  with Suc have a: "near_upto cs from n fi fd" and b: "near_upto cs to n ti td" by simp_all
  have "fold (nearestStep cs from to) [0..<Suc n] (- 1, - 1, Infinity, Infinity)
          = nearestStep cs from to n (fi, ti, fd, td)"
    by (simp add: st)
  then show ?case
    using near_upto_step [OF a] near_upto_step [OF b]
    by (simp only: nearestStep_tuple prod.case simp_thms)
qed

lemma nearestScan_empty: "nearestScan [] from to = (- 1, - 1, Infinity, Infinity)"
  by (simp add: nearestScan_def)

lemma near_upto_full:
  "cs \<noteq> [] \<Longrightarrow> near_upto cs p (length cs) idx d \<longleftrightarrow>
     0 \<le> idx \<and> is_nearest cs p (nat idx) \<and> d = Finite (distance (cs ! nat idx) p)"
  by (auto simp add: near_upto_def is_nearest_def)

lemma nearestScan_nonempty:
  assumes "cs \<noteq> []" and "nearestScan cs from to = (fi, ti, fd, td)"
  shows "0 \<le> fi \<and> is_nearest cs from (nat fi) \<and> fd = Finite (distance (cs ! nat fi) from) \<and>
         0 \<le> ti \<and> is_nearest cs to (nat ti) \<and> td = Finite (distance (cs ! nat ti) to)"
  using fold_nearest_inv [where cs = cs and n = "length cs" and ?from = "from" and to = to] assms
  by (simp add: nearestScan_def near_upto_full)

text \<open>What the scan of one polyline says in terms of nearest indices.\<close>

lemma nearestScan_cases:
  "(cs = [] \<and> nearestScan cs a b = (- 1, - 1, Infinity, Infinity)) \<or>
   (\<exists>i j. nearestScan cs a b =
            (int i, int j, Finite (distance (cs ! i) a), Finite (distance (cs ! j) b)) \<and>
          is_nearest cs a i \<and> is_nearest cs b j)"
proof (cases "cs = []")
  case True
  then show ?thesis by (simp add: nearestScan_empty)
next
  case False
  obtain fi ti fd td where st: "nearestScan cs a b = (fi, ti, fd, td)"
    by (metis prod_cases4)
  from nearestScan_nonempty [OF False st]
  have "nearestScan cs a b =
          (int (nat fi), int (nat ti), Finite (distance (cs ! nat fi) a), Finite (distance (cs ! nat ti) b))"
    and "is_nearest cs a (nat fi)" and "is_nearest cs b (nat ti)"
    by (simp_all add: st)
  then show ?thesis by blast
qed

lemma bestStep_degenerate:
  assumes "coincide (coordinates s) a b"
  shows "bestStep a b s st = st"
proof -
  from nearestScan_cases [of "coordinates s" a b]
  obtain fi fd td where "nearestScan (coordinates s) a b = (fi, fi, fd, td)"
    using assms unfolding coincide_def by blast
  then show ?thesis by (cases st) (simp add: bestStep_def)
qed

lemma bestStep_proper:
  assumes "is_nearest (coordinates s) a i" "is_nearest (coordinates s) b j" "i \<noteq> j"
  shows "bestStep a b s (bs, bi, bj, sc) =
           (if less_number (Finite (distance (coordinates s ! i) a + distance (coordinates s ! j) b)) sc
            then (Some s, int i, int j,
                  Finite (distance (coordinates s ! i) a + distance (coordinates s ! j) b))
            else (bs, bi, bj, sc))"
proof -
  from nearestScan_cases [of "coordinates s" a b] assms(1)
  obtain i' j' where st: "nearestScan (coordinates s) a b =
      (int i', int j', Finite (distance (coordinates s ! i') a), Finite (distance (coordinates s ! j') b))"
    and n: "is_nearest (coordinates s) a i'" "is_nearest (coordinates s) b j'"
    by (auto simp add: is_nearest_def)
  have "i' = i" "j' = j"
    using n assms is_nearest_unique by blast+
  with st assms(3) show ?thesis by (simp add: bestStep_def)
qed

lemma best_inv_step:
  assumes "best_inv ss a b st"
  shows "best_inv (ss @ [s]) a b (bestStep a b s st)"
proof (cases "coincide (coordinates s) a b")
  case True
  then show ?thesis
    using assms by (auto simp add: bestStep_degenerate best_inv_def coincide_def)
next
  case False
  then obtain i j where ij: "is_nearest (coordinates s) a i" "is_nearest (coordinates s) b j" "i \<noteq> j"
    unfolding coincide_def by blast
  have uniq: "\<And>i' j'. is_nearest (coordinates s) a i' \<Longrightarrow> is_nearest (coordinates s) b j' \<Longrightarrow> i' = i \<and> j' = j"
    using ij is_nearest_unique by blast
  let ?sc = "distance (coordinates s ! i) a + distance (coordinates s ! j) b"
  from assms consider
    (none) "st = (None, - 1, - 1, Infinity)" "\<forall>s \<in> set ss. coincide (coordinates s) a b"
  | (some) seg bi bj where
      "st = (Some seg, int bi, int bj,
             Finite (distance (coordinates seg ! bi) a + distance (coordinates seg ! bj) b))"
      "seg \<in> set ss" "is_nearest (coordinates seg) a bi" "is_nearest (coordinates seg) b bj" "bi \<noteq> bj"
      "\<forall>s \<in> set ss. \<forall>i' j'. is_nearest (coordinates s) a i' \<and> is_nearest (coordinates s) b j' \<and> i' \<noteq> j' \<longrightarrow>
            distance (coordinates seg ! bi) a + distance (coordinates seg ! bj) b
              \<le> distance (coordinates s ! i') a + distance (coordinates s ! j') b"
    unfolding best_inv_def by blast
  then show ?thesis
  proof cases
    case none
    have "bestStep a b s st = (Some s, int i, int j, Finite ?sc)"
      using bestStep_proper [OF ij] none(1) by simp
    moreover have "\<forall>t \<in> set (ss @ [s]). \<forall>i' j'. is_nearest (coordinates t) a i' \<and> is_nearest (coordinates t) b j' \<and> i' \<noteq> j' \<longrightarrow>
            ?sc \<le> distance (coordinates t ! i') a + distance (coordinates t ! j') b"
      using none(2) uniq unfolding coincide_def by auto
    ultimately show ?thesis
      unfolding best_inv_def using ij by auto
  next
    case some
    let ?old = "distance (coordinates seg ! bi) a + distance (coordinates seg ! bj) b"
    show ?thesis
    proof (cases "?sc < ?old")
      case True
      have "bestStep a b s st = (Some s, int i, int j, Finite ?sc)"
        using bestStep_proper [OF ij] some(1) True by simp
      moreover have "\<forall>t \<in> set (ss @ [s]). \<forall>i' j'. is_nearest (coordinates t) a i' \<and> is_nearest (coordinates t) b j' \<and> i' \<noteq> j' \<longrightarrow>
            ?sc \<le> distance (coordinates t ! i') a + distance (coordinates t ! j') b"
        using some(6) uniq True by fastforce
      ultimately show ?thesis
        unfolding best_inv_def using ij by auto
    next
      case False
      have "bestStep a b s st = st"
        using bestStep_proper [OF ij] some(1) False by simp
      moreover have "\<forall>t \<in> set (ss @ [s]). \<forall>i' j'. is_nearest (coordinates t) a i' \<and> is_nearest (coordinates t) b j' \<and> i' \<noteq> j' \<longrightarrow>
            ?old \<le> distance (coordinates t ! i') a + distance (coordinates t ! j') b"
        using some(6) uniq False by fastforce
      ultimately show ?thesis
        unfolding best_inv_def using some by auto
    qed
  qed
qed

lemma bestScan_inv: "best_inv segs a b (bestScan segs a b)"
  unfolding bestScan_def
proof (induction segs rule: rev_induct)
  case Nil
  show ?case by (simp add: best_inv_def)
next
  case (snoc s ss)
  then show ?case using best_inv_step by simp
qed

lemma slice_range:
  assumes "i \<le> j" "j < length xs"
  shows "slice xs (int i) (int j + 1) = map ((!) xs) [i..<Suc j]"
proof -
  have "slice xs (int i) (int j + 1) = take (Suc j - i) (drop i xs)"
  proof -
    have "nat (int j + 1 - int i) = Suc j - i" using assms(1) by linarith
    then show ?thesis using assms by (simp add: slice_def Let_def min_def)
  qed
  also have "\<dots> = map ((!) xs) [i..<Suc j]"
  proof (rule map_upt_eqI [symmetric])
    show "length (take (Suc j - i) (drop i xs)) = Suc j - i"
      using assms by simp
  next
    fix k assume "k < length (take (Suc j - i) (drop i xs))"
    then show "take (Suc j - i) (drop i xs) ! k = xs ! (i + k)"
      using assms by simp
  qed
  finally show ?thesis .
qed

lemma pathBetween_swap: "i \<noteq> j \<Longrightarrow> pathBetween cs j i = rev (pathBetween cs i j)"
  by (auto simp add: pathBetween_def)

lemma length_pathBetween: "length (pathBetween cs i j) = (max i j - min i j) + 1"
  by (auto simp add: pathBetween_def)

lemma findTrackPath_selected:
  assumes "L name = Some segs"
    and "bestScan segs a b = (Some seg, int i, int j, sc)"
    and "i < length (coordinates seg)" "j < length (coordinates seg)"
  shows "findTrackPath L a b name = Some (pathBetween (coordinates seg) i j)"
proof -
  have ne: "segs \<noteq> []"
    using assms(2) by (auto simp add: bestScan_def)
  show ?thesis
  proof (cases "i > j")
    case True
    then have "slice (coordinates seg) (min (int i) (int j)) (max (int i) (int j) + 1)
                 = map ((!) (coordinates seg)) [j..<Suc i]"
      using slice_range [of j i "coordinates seg"] assms(3) by (simp add: min_def max_def)
    then show ?thesis
      using True assms(1,2) ne by (simp add: findTrackPath_def pathBetween_def Let_def)
  next
    case False
    then have "slice (coordinates seg) (min (int i) (int j)) (max (int i) (int j) + 1)
                 = map ((!) (coordinates seg)) [i..<Suc j]"
      using slice_range [of i j "coordinates seg"] assms(4) by (simp add: min_def max_def)
    then show ?thesis
      using False assms(1,2) ne by (simp add: findTrackPath_def pathBetween_def Let_def)
  qed
qed

lemma findTrackPath_none:
  assumes "L name = Some segs" and "bestScan segs a b = (None, bi, bj, sc)"
  shows "findTrackPath L a b name = None"
  using assms by (simp add: findTrackPath_def)

text \<open>The resolver in terms of nearest indices: the two outcomes.\<close>

lemma findTrackPath_cases:
  assumes "L name = Some segs"
  shows "(findTrackPath L a b name = None \<and> (\<forall>s \<in> set segs. coincide (coordinates s) a b)) \<or>
         (\<exists>seg i j. findTrackPath L a b name = Some (pathBetween (coordinates seg) i j) \<and>
            bestScan segs a b = (Some seg, int i, int j,
               Finite (distance (coordinates seg ! i) a + distance (coordinates seg ! j) b)) \<and>
            seg \<in> set segs \<and> is_nearest (coordinates seg) a i \<and> is_nearest (coordinates seg) b j \<and>
            i \<noteq> j \<and>
            (\<forall>s \<in> set segs. \<forall>i' j'. is_nearest (coordinates s) a i' \<and> is_nearest (coordinates s) b j' \<and> i' \<noteq> j' \<longrightarrow>
               distance (coordinates seg ! i) a + distance (coordinates seg ! j) b
                 \<le> distance (coordinates s ! i') a + distance (coordinates s ! j') b))"
proof -
  have "best_inv segs a b (bestScan segs a b)" by (rule bestScan_inv)
  then show ?thesis
    unfolding best_inv_def
  proof (elim disjE exE conjE)
    assume "bestScan segs a b = (None, - 1, - 1, Infinity)"
      and c: "\<forall>s \<in> set segs. coincide (coordinates s) a b"
    then have "findTrackPath L a b name = None"
      using findTrackPath_none [where L = L and name = name, OF assms] by simp
    with c show ?thesis by simp
  next
    fix seg i j
    assume bs: "bestScan segs a b = (Some seg, int i, int j,
             Finite (distance (coordinates seg ! i) a + distance (coordinates seg ! j) b))"
      and mem: "seg \<in> set segs"
      and ni: "is_nearest (coordinates seg) a i" and nj: "is_nearest (coordinates seg) b j"
      and ne: "i \<noteq> j"
      and mn: "\<forall>s \<in> set segs. \<forall>i' j'. is_nearest (coordinates s) a i' \<and> is_nearest (coordinates s) b j' \<and> i' \<noteq> j' \<longrightarrow>
            distance (coordinates seg ! i) a + distance (coordinates seg ! j) b
              \<le> distance (coordinates s ! i') a + distance (coordinates s ! j') b"
    have "i < length (coordinates seg)" "j < length (coordinates seg)"
      using ni nj by (simp_all add: is_nearest_def)
    then have "findTrackPath L a b name = Some (pathBetween (coordinates seg) i j)"
      using findTrackPath_selected [where L = L and name = name, OF assms bs] by simp
    then show ?thesis
      using bs mem ni nj ne mn by (intro disjI2 exI conjI)
  qed
qed

lemma coincide_sym: "coincide cs a b = coincide cs b a"
  unfolding coincide_def by auto

lemma findTrackPath_None_iff:
  assumes "L name = Some segs"
  shows "findTrackPath L a b name = None \<longleftrightarrow> (\<forall>s \<in> set segs. coincide (coordinates s) a b)"
proof
  assume n: "findTrackPath L a b name = None"
  from findTrackPath_cases [where L = L and name = name and a = a and b = b, OF assms]
  show "\<forall>s \<in> set segs. coincide (coordinates s) a b"
  proof (elim disjE exE conjE)
    fix seg i j
    assume "findTrackPath L a b name = Some (pathBetween (coordinates seg) i j)"
    with n show ?thesis by simp
  qed
next
  assume c: "\<forall>s \<in> set segs. coincide (coordinates s) a b"
  from findTrackPath_cases [where L = L and name = name and a = a and b = b, OF assms]
  show "findTrackPath L a b name = None"
  proof (elim disjE exE conjE)
    fix seg i j
    assume "seg \<in> set segs" "is_nearest (coordinates seg) a i" "is_nearest (coordinates seg) b j" "i \<noteq> j"
    with c have False unfolding coincide_def by blast
    then show ?thesis ..
  qed
qed

lemma bestStep_swap:
  "bestStep b a t (case st of (s, x, y, c) \<Rightarrow> (s, y, x, c))
     = (case bestStep a b t st of (s, x, y, c) \<Rightarrow> (s, y, x, c))"
proof -
  obtain fi ti fd td where sc: "nearestScan (coordinates t) a b = (fi, ti, fd, td)"
    by (metis prod_cases4)
  then have sc': "nearestScan (coordinates t) b a = (ti, fi, td, fd)"
    by (simp add: nearestScan_swap [of _ b a] swap_scan_def)
  have comm: "add_number td fd = add_number fd td"
    by (cases fd; cases td) simp_all
  have eq: "(ti \<noteq> fi) = (fi \<noteq> ti)" by auto
  obtain s x y c where st: "st = (s, x, y, c)"
    by (metis prod_cases4)
  show ?thesis
    by (simp add: st bestStep_def sc sc' comm Let_def eq)
qed

lemma fold_bestStep_swap:
  "fold (bestStep b a) segs (case st of (s, x, y, c) \<Rightarrow> (s, y, x, c))
     = (case fold (bestStep a b) segs st of (s, x, y, c) \<Rightarrow> (s, y, x, c))"
  by (induction segs arbitrary: st) (simp_all add: bestStep_swap)

lemma bestScan_swap:
  "bestScan segs a b = (s, x, y, c) \<Longrightarrow> bestScan segs b a = (s, y, x, c)"
  using fold_bestStep_swap [of b a segs "(None, - 1, - 1, Infinity)"]
  by (simp add: bestScan_def)

text \<open>Swapping the two end points reverses the resolved path.\<close>

lemma findTrackPath_swap:
  "findTrackPath L b a name = map_option rev (findTrackPath L a b name)"
proof (cases "L name")
  case None
  then show ?thesis by (simp add: findTrackPath_def)
next
  case (Some segs)
  from findTrackPath_cases [where L = L and name = name and a = a and b = b, OF Some]
  show ?thesis
  proof (elim disjE exE conjE)
    assume n: "findTrackPath L a b name = None"
      and "\<forall>s \<in> set segs. coincide (coordinates s) a b"
    then have "\<forall>s \<in> set segs. coincide (coordinates s) b a"
      by (simp add: coincide_sym [of _ b a])
    then have "findTrackPath L b a name = None"
      by (simp add: findTrackPath_None_iff [where L = L and name = name, OF Some])
    with n show ?thesis by simp
  next
    fix seg i j
    assume p: "findTrackPath L a b name = Some (pathBetween (coordinates seg) i j)"
      and bs: "bestScan segs a b = (Some seg, int i, int j,
               Finite (distance (coordinates seg ! i) a + distance (coordinates seg ! j) b))"
      and ni: "is_nearest (coordinates seg) a i" and nj: "is_nearest (coordinates seg) b j"
      and ne: "i \<noteq> j"
    have "i < length (coordinates seg)" "j < length (coordinates seg)"
      using ni nj by (simp_all add: is_nearest_def)
    then have "findTrackPath L b a name = Some (pathBetween (coordinates seg) j i)"
      using findTrackPath_selected [where L = L and name = name, OF Some bestScan_swap [OF bs]]
      by simp
    then show ?thesis
      using p by (simp add: pathBetween_swap [OF ne])
  qed
qed

lemma nearestScan_seg0: "nearestScan [(0, 0), (1, 0), (2, 0)] (0, 0) (2, 0) = (0, 2, Finite 0, Finite 0)"
  by (simp add: nearestScan_def nearestStep_def distance_def upt_rec)

lemma bestScan_seg0: "bestScan [seg0] (0, 0) (2, 0) = (Some seg0, 0, 2, Finite 0)"
  by (simp add: bestScan_def bestStep_def seg0_def nearestScan_seg0)

lemma is_nearest_seg0_first: "is_nearest (coordinates seg0) (0, 0) 0"
  by (auto simp add: seg0_def is_nearest_def distance_def less_Suc_eq)

lemma is_nearest_seg0_last: "is_nearest (coordinates seg0) (2, 0) 2"
  by (auto simp add: seg0_def is_nearest_def distance_def less_Suc_eq eval_nat_numeral)

text \<open>
  Claim C3. When the resolver selects a polyline on which the nearest index to the first
  point is \<open>i\<close> and the nearest index to the second is \<open>j\<close>, with \<open>i < j\<close>, the path it
  returns is the inclusive stretch of the polyline from index \<open>i\<close> to index \<open>j\<close>: it begins
  at point \<open>i\<close> and ends at point \<open>j\<close>. Resolving with the two points exchanged returns
  exactly the reverse of that sequence.
\<close>

theorem path_extraction_orientation:
  assumes "lineSegments name = Some segments"
    and "bestScan segments a b = (Some seg, bi, bj, sc)"
    and "is_nearest (coordinates seg) a i"
    and "is_nearest (coordinates seg) b j"
    and "i < j"
  shows "findTrackPath lineSegments a b name = Some (map ((!) (coordinates seg)) [i..<Suc j]) \<and>
         hd (map ((!) (coordinates seg)) [i..<Suc j]) = coordinates seg ! i \<and>
         last (map ((!) (coordinates seg)) [i..<Suc j]) = coordinates seg ! j \<and>
         findTrackPath lineSegments b a name = Some (rev (map ((!) (coordinates seg)) [i..<Suc j]))"
proof -
  from findTrackPath_cases [where L = lineSegments and name = name and a = a and b = b, OF assms(1)]
  have p: "findTrackPath lineSegments a b name = Some (pathBetween (coordinates seg) i j)"
  proof (elim disjE exE conjE)
    assume "\<forall>s \<in> set segments. coincide (coordinates s) a b"
    then have "bestScan segments a b = (None, - 1, - 1, Infinity)"
      using bestScan_inv [of segments a b] unfolding best_inv_def coincide_def by blast
    with assms(2) show ?thesis by simp
  next
    fix seg' i' j'
    assume q: "findTrackPath lineSegments a b name = Some (pathBetween (coordinates seg') i' j')"
      and bs: "bestScan segments a b = (Some seg', int i', int j',
               Finite (distance (coordinates seg' ! i') a + distance (coordinates seg' ! j') b))"
      and n: "is_nearest (coordinates seg') a i'" "is_nearest (coordinates seg') b j'"
    from bs assms(2) have "seg' = seg" by simp
    with n assms(3,4) have "i' = i" "j' = j"
      using is_nearest_unique by blast+
    with q \<open>seg' = seg\<close> show ?thesis by simp
  qed
  have eq: "pathBetween (coordinates seg) i j = map ((!) (coordinates seg)) [i..<Suc j]"
    using assms(5) by (simp add: pathBetween_def)
  have "hd (map ((!) (coordinates seg)) [i..<Suc j]) = coordinates seg ! i"
    using assms(5) by (simp add: upt_conv_Cons hd_map)
  moreover have "last (map ((!) (coordinates seg)) [i..<Suc j]) = coordinates seg ! j"
    using assms(5) by (simp add: last_map)
  moreover have "findTrackPath lineSegments b a name = Some (rev (map ((!) (coordinates seg)) [i..<Suc j]))"
    using findTrackPath_swap [of lineSegments b a name] p eq by simp
  ultimately show ?thesis using p eq by simp
qed

text \<open>
  The three-point line, resolved from its first point to its last and back.
\<close>

theorem path_extraction_orientation_witness:
  "findTrackPath idx0 (0, 0) (2, 0) ''Central'' = Some [(0, 0), (1, 0), (2, 0)] \<and>
   findTrackPath idx0 (2, 0) (0, 0) ''Central'' = Some [(2, 0), (1, 0), (0, 0)]"
proof -
  have h1: "idx0 ''Central'' = Some [seg0]" by (simp add: idx0_def)
  have h5: "(0::nat) < 2" by simp
  have m: "map ((!) (coordinates seg0)) [0..<Suc 2] = [(0, 0), (1, 0), (2, 0)]"
    by (simp add: seg0_def upt_rec)
  have r: "rev [(0::real, 0::real), (1, 0), (2, 0)] = [(2, 0), (1, 0), (0, 0)]"
    by simp
  show ?thesis
    using path_extraction_orientation [where lineSegments = idx0, OF h1 bestScan_seg0 is_nearest_seg0_first is_nearest_seg0_last h5]
    unfolding m r by blast
qed

text \<open>
  Claim C4. The resolver returns null exactly when no polyline qualifies: no list is
  registered under the line name, or on every polyline of the line the two nearest
  indices coincide. Otherwise the path comes from a polyline of the line whose nearest
  indices differ and whose score, the sum of the two nearest-point distances, is the
  lowest among the polylines whose nearest indices differ.
\<close>

theorem resolve_null_iff_no_candidate:
  "(findTrackPath lineSegments a b name = None \<longleftrightarrow>
      (case lineSegments name of
         None \<Rightarrow> True
       | Some segments \<Rightarrow> \<forall>s \<in> set segments. coincide (coordinates s) a b)) \<and>
   (\<forall>path. findTrackPath lineSegments a b name = Some path \<longrightarrow>
      (\<exists>segments seg i j.
         lineSegments name = Some segments \<and> seg \<in> set segments \<and>
         is_nearest (coordinates seg) a i \<and> is_nearest (coordinates seg) b j \<and> i \<noteq> j \<and>
         path = pathBetween (coordinates seg) i j \<and>
         (\<forall>s \<in> set segments. \<forall>i' j'.
            is_nearest (coordinates s) a i' \<and> is_nearest (coordinates s) b j' \<and> i' \<noteq> j' \<longrightarrow>
            distance (coordinates seg ! i) a + distance (coordinates seg ! j) b
              \<le> distance (coordinates s ! i') a + distance (coordinates s ! j') b)))"
proof (cases "lineSegments name")
  case None
  then show ?thesis by (simp add: findTrackPath_def)
next
  case (Some segments)
  have 1: "findTrackPath lineSegments a b name = None \<longleftrightarrow>
        (\<forall>s \<in> set segments. coincide (coordinates s) a b)"
    by (rule findTrackPath_None_iff [where L = lineSegments and name = name, OF Some])
  have 2: "\<exists>seg i j.
         seg \<in> set segments \<and>
         is_nearest (coordinates seg) a i \<and> is_nearest (coordinates seg) b j \<and> i \<noteq> j \<and>
         path = pathBetween (coordinates seg) i j \<and>
         (\<forall>s \<in> set segments. \<forall>i' j'.
            is_nearest (coordinates s) a i' \<and> is_nearest (coordinates s) b j' \<and> i' \<noteq> j' \<longrightarrow>
            distance (coordinates seg ! i) a + distance (coordinates seg ! j) b
              \<le> distance (coordinates s ! i') a + distance (coordinates s ! j') b)"
    if r: "findTrackPath lineSegments a b name = Some path" for path
    using findTrackPath_cases [where L = lineSegments and name = name and a = a and b = b, OF Some]
  proof (elim disjE exE conjE)
    assume "findTrackPath lineSegments a b name = None"
    with r show ?thesis by simp
  next
    fix seg i j
    assume q: "findTrackPath lineSegments a b name = Some (pathBetween (coordinates seg) i j)"
      and mem: "seg \<in> set segments"
      and ni: "is_nearest (coordinates seg) a i" and nj: "is_nearest (coordinates seg) b j"
      and ne: "i \<noteq> j"
      and mn: "\<forall>s \<in> set segments. \<forall>i' j'. is_nearest (coordinates s) a i' \<and> is_nearest (coordinates s) b j' \<and> i' \<noteq> j' \<longrightarrow>
            distance (coordinates seg ! i) a + distance (coordinates seg ! j) b
              \<le> distance (coordinates s ! i') a + distance (coordinates s ! j') b"
    from q r have "path = pathBetween (coordinates seg) i j" by simp
    with mem ni nj ne mn show ?thesis by (intro exI conjI)
  qed
  show ?thesis
    using 1 2 by (simp add: Some)
qed

text \<open>
  On the three-point line the two end points have different nearest indices, and a path
  is returned.
\<close>

theorem resolve_null_iff_no_candidate_witness:
  "findTrackPath idx0 (0, 0) (2, 0) ''Central'' = Some [(0, 0), (1, 0), (2, 0)] \<and>
   \<not> coincide (coordinates seg0) (0, 0) (2, 0) \<and>
   (\<exists>seg i j. seg \<in> set [seg0] \<and>
      is_nearest (coordinates seg) (0, 0) i \<and> is_nearest (coordinates seg) (2, 0) j \<and> i \<noteq> j \<and>
      [(0, 0), (1, 0), (2, 0)] = pathBetween (coordinates seg) i j)"
proof -
  have v: "findTrackPath idx0 (0, 0) (2, 0) ''Central'' = Some [(0, 0), (1, 0), (2, 0)]"
    by (simp add: findTrackPath_def idx0_def bestScan_seg0 slice_def) (simp add: seg0_def)
  have h: "idx0 ''Central'' = Some [seg0]" by (simp add: idx0_def)
  from resolve_null_iff_no_candidate [of idx0 "(0, 0)" "(2, 0)" "''Central''"]
  show ?thesis
    by (simp add: v h) blast
qed

text \<open>
  Claim C10. Every path the resolver returns has at least two points: it comes from a
  polyline whose two nearest indices \<open>i\<close> and \<open>j\<close> differ, and its length is
  \<open>|i - j| + 1\<close>.
\<close>

theorem resolved_path_has_two_points:
  assumes "findTrackPath lineSegments a b name = Some path"
  shows "2 \<le> length path \<and>
         (\<exists>segments seg i j.
            lineSegments name = Some segments \<and> seg \<in> set segments \<and>
            is_nearest (coordinates seg) a i \<and> is_nearest (coordinates seg) b j \<and> i \<noteq> j \<and>
            length path = (max i j - min i j) + 1)"
proof -
  obtain segments where s: "lineSegments name = Some segments"
    using assms by (cases "lineSegments name") (simp_all add: findTrackPath_def)
  from findTrackPath_cases [where L = lineSegments and name = name and a = a and b = b, OF s]
  show ?thesis
  proof (elim disjE exE conjE)
    assume "findTrackPath lineSegments a b name = None"
    with assms show ?thesis by simp
  next
    fix seg i j
    assume q: "findTrackPath lineSegments a b name = Some (pathBetween (coordinates seg) i j)"
      and mem: "seg \<in> set segments"
      and ni: "is_nearest (coordinates seg) a i" and nj: "is_nearest (coordinates seg) b j"
      and ne: "i \<noteq> j"
    from q assms have "path = pathBetween (coordinates seg) i j" by simp
    then have len: "length path = (max i j - min i j) + 1"
      by (simp add: length_pathBetween)
    moreover from ne have "2 \<le> (max i j - min i j) + 1"
      by (cases "i \<le> j") (simp_all add: max_def min_def)
    ultimately have "2 \<le> length path" by simp
    with s mem ni nj ne len show ?thesis by (intro conjI exI)
  qed
qed

text \<open>
  The path resolved on the three-point line has three points.
\<close>

theorem resolved_path_has_two_points_witness:
  "findTrackPath idx0 (0, 0) (2, 0) ''Central'' = Some [(0, 0), (1, 0), (2, 0)] \<and>
   (2::nat) \<le> length [(0::real, 0::real), (1, 0), (2, 0)]"
proof -
  have v: "findTrackPath idx0 (0, 0) (2, 0) ''Central'' = Some [(0, 0), (1, 0), (2, 0)]"
    by (simp add: findTrackPath_def idx0_def bestScan_seg0 slice_def) (simp add: seg0_def)
  from resolved_path_has_two_points [OF v] v show ?thesis by blast
qed

section \<open>The path sampler\<close>

lemma distance_nonneg: "0 \<le> distance p q"
  by (simp add: distance_def Let_def)

lemma distance_zero_iff: "distance p q = 0 \<longleftrightarrow> p = q"
proof -
  have "(fst p - fst q) * (fst p - fst q) + (snd p - snd q) * (snd p - snd q) = 0
          \<longleftrightarrow> fst p = fst q \<and> snd p = snd q"
    by (simp add: sum_squares_eq_zero_iff)
  then show ?thesis
    by (simp add: distance_def Let_def prod_eq_iff)
qed

lemma length_segmentLengths: "length (segmentLengths path) = length path - 1"
  by (simp add: segmentLengths_def)

lemma nth_segmentLengths:
  "i < length path - 1 \<Longrightarrow> segmentLengths path ! i = distance (path ! i) (path ! Suc i)"
  by (simp add: segmentLengths_def)

lemma segmentLengths_nonneg: "l \<in> set (segmentLengths path) \<Longrightarrow> 0 \<le> l"
  by (auto simp add: segmentLengths_def distance_nonneg)

lemma sum_list_nonneg_zero:
  fixes xs :: "real list"
  assumes "\<forall>x \<in> set xs. 0 \<le> x" and "sum_list xs = 0"
  shows "\<forall>x \<in> set xs. x = 0"
  using assms by (simp add: sum_list_nonneg_eq_0_iff)

lemma zero_length_all_equal:
  assumes "sum_list (segmentLengths path) = 0" and "i < length path"
  shows "path ! i = path ! 0"
  using assms(2)
proof (induction i)
  case 0
  show ?case by simp
next
  case (Suc i)
  then have lt: "i < length path - 1" by simp
  then have "segmentLengths path ! i \<in> set (segmentLengths path)"
    by (simp add: length_segmentLengths)
  then have "segmentLengths path ! i = 0"
    using sum_list_nonneg_zero [OF _ assms(1)] segmentLengths_nonneg by blast
  then have "path ! i = path ! Suc i"
    using lt by (simp add: nth_segmentLengths distance_zero_iff)
  with Suc show ?case by simp
qed

text \<open>
  Claim C5. Sampling the empty path gives the origin \<open>(0, 0)\<close>; sampling a one-point path
  gives that point at any progress; on a path with at least one point a progress of at
  most 0 gives the first point and a progress of at least 1 the last point; and a path
  of total length zero gives its first point. The sampler is a total function: none of
  these inputs raises.
\<close>

theorem sampler_boundary_laws:
  "interpolateAlongPath [] t = (0, 0) \<and>
   interpolateAlongPath [p] t = p \<and>
   (path \<noteq> [] \<and> t \<le> 0 \<longrightarrow> interpolateAlongPath path t = hd path) \<and>
   (path \<noteq> [] \<and> 1 \<le> t \<longrightarrow> interpolateAlongPath path t = last path) \<and>
   (path \<noteq> [] \<and> sum_list (segmentLengths path) = 0 \<longrightarrow> interpolateAlongPath path t = hd path)"
proof (intro conjI impI)
  show "interpolateAlongPath [] t = (0, 0)"
    by (simp add: interpolateAlongPath_def)
  show "interpolateAlongPath [p] t = p"
    by (simp add: interpolateAlongPath_def)
next
  assume "path \<noteq> [] \<and> t \<le> 0"
  then show "interpolateAlongPath path t = hd path"
    by (simp add: interpolateAlongPath_def hd_conv_nth)
next
  assume "path \<noteq> [] \<and> 1 \<le> t"
  then show "interpolateAlongPath path t = last path"
    by (cases "length path = 1")
       (auto simp add: interpolateAlongPath_def last_conv_nth)
next
  assume a: "path \<noteq> [] \<and> sum_list (segmentLengths path) = 0"
  then have "path ! (length path - 1) = path ! 0"
    using zero_length_all_equal [of path "length path - 1"] by simp
  with a show "interpolateAlongPath path t = hd path"
    by (simp add: interpolateAlongPath_def hd_conv_nth Let_def)
qed

text \<open>
  A two-point path at progress 0 and 1, and a path of length zero at progress one half.
\<close>

theorem sampler_boundary_laws_witness:
  "interpolateAlongPath [(0, 0), (1, 0)] 0 = (0, 0) \<and>
   interpolateAlongPath [(0, 0), (1, 0)] 1 = (1, 0) \<and>
   interpolateAlongPath [(1, 1), (1, 1)] (1 / 2) = (1, 1)"
proof -
  have z: "sum_list (segmentLengths [(1, 1), (1, 1)]) = 0"
    by (simp add: segmentLengths_def distance_def)
  from sampler_boundary_laws [of 0 "(0, 0)" "[(0, 0), (1, 0)]"]
  have 1: "interpolateAlongPath [(0, 0), (1, 0)] 0 = (0, 0)" by simp
  from sampler_boundary_laws [of 1 "(0, 0)" "[(0, 0), (1, 0)]"]
  have 2: "interpolateAlongPath [(0, 0), (1, 0)] 1 = (1, 0)" by simp
  from sampler_boundary_laws [of "1 / 2" "(0, 0)" "[(1, 1), (1, 1)]"] z
  have 3: "interpolateAlongPath [(1, 1), (1, 1)] (1 / 2) = (1, 1)" by simp
  from 1 2 3 show ?thesis by simp
qed

lemma walkPath_locate:
  "walkPath path segLens target i cur =
     (case walkLocate segLens target i cur of
        Some (k, f) \<Rightarrow>
          (fst (path ! k) + (fst (path ! (k + 1)) - fst (path ! k)) * f,
           snd (path ! k) + (snd (path ! (k + 1)) - snd (path ! k)) * f)
      | None \<Rightarrow> (fst (path ! (length path - 1)), snd (path ! (length path - 1))))"
proof (induction segLens target i cur rule: walkLocate.induct)
  case (1 segLens targetDist i currentDist)
  show ?case
  proof (cases "i < length segLens")
    case True
    show ?thesis
    proof (cases "currentDist + segLens ! i \<ge> targetDist")
      case t: True
      with True show ?thesis
        by (simp add: walkPath.simps [of path segLens targetDist i]
                      walkLocate.simps [of segLens targetDist i] Let_def)
    next
      case False
      with True 1 show ?thesis
        by (simp add: walkPath.simps [of path segLens targetDist i]
                      walkLocate.simps [of segLens targetDist i] Let_def)
    qed
  next
    case False
    then show ?thesis
      by (simp add: walkPath.simps [of path segLens targetDist i]
                    walkLocate.simps [of segLens targetDist i])
  qed
qed

lemma walkLocate_reaches:
  assumes "\<forall>l \<in> set segLens. 0 \<le> l"
    and "i \<le> length segLens"
    and "cur = sum_list (take i segLens)"
    and "cur < target"
    and "target \<le> sum_list segLens"
  shows "\<exists>k f. walkLocate segLens target i cur = Some (k, f) \<and> k < length segLens \<and>
               0 < f \<and> f \<le> 1 \<and> sum_list (take k segLens) + f * segLens ! k = target"
  using assms
proof (induction segLens target i cur rule: walkLocate.induct)
  case (1 segLens targetDist i currentDist)
  have lt: "i < length segLens"
  proof (rule ccontr)
    assume "\<not> i < length segLens"
    with "1.prems"(2) have "i = length segLens" by simp
    with "1.prems"(3,4,5) show False by simp
  qed
  show ?case
  proof (cases "currentDist + segLens ! i \<ge> targetDist")
    case True
    let ?l = "segLens ! i"
    let ?f = "(targetDist - currentDist) / ?l"
    have pos: "0 < ?l" using True "1.prems"(4) by linarith
    have "walkLocate segLens targetDist i currentDist = Some (i, ?f)"
      using lt True by (simp add: walkLocate.simps [of segLens targetDist i] Let_def)
    moreover have "0 < ?f" using pos "1.prems"(4) by simp
    moreover have "?f \<le> 1" using pos True by (simp add: pos_divide_le_eq)
    moreover have "sum_list (take i segLens) + ?f * ?l = targetDist"
      using pos "1.prems"(3) by simp
    ultimately show ?thesis using lt by blast
  next
    case False
    have step: "walkLocate segLens targetDist i currentDist
                 = walkLocate segLens targetDist (i + 1) (currentDist + segLens ! i)"
      using lt False by (simp add: walkLocate.simps [of segLens targetDist i] Let_def)
    have "currentDist + segLens ! i = sum_list (take (i + 1) segLens)"
      using lt "1.prems"(3) by (simp add: take_Suc_conv_app_nth)
    moreover have "currentDist + segLens ! i < targetDist" using False by simp
    moreover have "i + 1 \<le> length segLens" using lt by simp
    ultimately show ?thesis
      using "1.IH" [OF lt refl False "1.prems"(1)] "1.prems"(5) step by simp
  qed
qed


lemma traveled_linear:
  assumes "0 \<le> t" and "t \<le> 1"
  shows "traveled path t = t * sum_list (segmentLengths path)"
proof -
  let ?segs = "segmentLengths path"
  let ?total = "sum_list ?segs"
  have nonneg: "\<forall>l \<in> set ?segs. 0 \<le> l"
    using segmentLengths_nonneg by blast
  have total_nonneg: "0 \<le> ?total"
    using nonneg by (simp add: sum_list_nonneg)
  consider (short) "length path \<le> 1" | (lo) "2 \<le> length path" "t = 0"
    | (hi) "2 \<le> length path" "t = 1" | (zero) "2 \<le> length path" "0 < t" "t < 1" "?total = 0"
    | (mid) "2 \<le> length path" "0 < t" "t < 1" "?total \<noteq> 0"
    using assms by linarith
  then show ?thesis
  proof cases
    case short
    then have "?segs = []" by (simp add: segmentLengths_def)
    with short show ?thesis by (auto simp add: traveled_def)
  next
    case lo
    then show ?thesis by (auto simp add: traveled_def)
  next
    case hi
    then show ?thesis by (auto simp add: traveled_def)
  next
    case zero
    then show ?thesis by (auto simp add: traveled_def)
  next
    case mid
    have pos: "0 < ?total" using total_nonneg mid(4) by simp
    have a: "0 < t * ?total" using mid(2) pos by simp
    have b: "t * ?total \<le> ?total" using mid(3) pos by simp
    from walkLocate_reaches [OF nonneg _ _ a b, of 0]
    obtain k f where "walkLocate ?segs (t * ?total) 0 0 = Some (k, f)"
      and "sum_list (take k ?segs) + f * ?segs ! k = t * ?total"
      by auto
    with mid show ?thesis by (auto simp add: traveled_def Let_def)
  qed
qed

text \<open>
  Claim C6. On a path all of whose segments have positive length (the cumulative arc
  length increases strictly), the point sampled at a progress between 0 and 1 lies at arc
  length progress times total: the walk stops in a segment \<open>k\<close> with a fraction \<open>f\<close> in
  \<open>(0, 1]\<close>, the lengths of the segments before \<open>k\<close> plus \<open>f\<close> times the length of segment
  \<open>k\<close> make up that distance, and the point returned is the linear interpolation of the
  end points of segment \<open>k\<close> at \<open>f\<close>. Hence the distance travelled does not decrease as the
  progress grows from 0 to 1.
\<close>

theorem sampler_monotone:
  assumes "\<forall>l \<in> set (segmentLengths path). 0 < l"
    and "0 \<le> t1" and "t1 \<le> t2" and "t2 \<le> 1"
  shows "traveled path t1 \<le> traveled path t2 \<and>
         traveled path t1 = t1 * sum_list (segmentLengths path) \<and>
         traveled path t2 = t2 * sum_list (segmentLengths path) \<and>
         (2 \<le> length path \<and> 0 < t1 \<and> t1 < 1 \<longrightarrow>
            (\<exists>k f. walkLocate (segmentLengths path) (t1 * sum_list (segmentLengths path)) 0 0 = Some (k, f) \<and>
                   k + 1 < length path \<and> 0 < f \<and> f \<le> 1 \<and>
                   sum_list (take k (segmentLengths path)) + f * distance (path ! k) (path ! (k + 1))
                     = t1 * sum_list (segmentLengths path) \<and>
                   interpolateAlongPath path t1 =
                     (fst (path ! k) + (fst (path ! (k + 1)) - fst (path ! k)) * f,
                      snd (path ! k) + (snd (path ! (k + 1)) - snd (path ! k)) * f)))"
proof -
  let ?segs = "segmentLengths path"
  let ?total = "sum_list ?segs"
  have nonneg: "\<forall>l \<in> set ?segs. 0 \<le> l"
    using segmentLengths_nonneg by blast
  have total_nonneg: "0 \<le> ?total"
    using nonneg by (simp add: sum_list_nonneg)
  have l1: "traveled path t1 = t1 * ?total"
    using assms by (intro traveled_linear) simp_all
  have l2: "traveled path t2 = t2 * ?total"
    using assms by (intro traveled_linear) simp_all
  have mono: "traveled path t1 \<le> traveled path t2"
    using l1 l2 assms(3) total_nonneg by (simp add: mult_right_mono)
  have loc: "\<exists>k f. walkLocate ?segs (t1 * ?total) 0 0 = Some (k, f) \<and>
                   k + 1 < length path \<and> 0 < f \<and> f \<le> 1 \<and>
                   sum_list (take k ?segs) + f * distance (path ! k) (path ! (k + 1)) = t1 * ?total \<and>
                   interpolateAlongPath path t1 =
                     (fst (path ! k) + (fst (path ! (k + 1)) - fst (path ! k)) * f,
                      snd (path ! k) + (snd (path ! (k + 1)) - snd (path ! k)) * f)"
    if h: "2 \<le> length path" "0 < t1" "t1 < 1"
  proof -
    have "length ?segs \<noteq> 0" using h(1) by (simp add: length_segmentLengths)
    then have ne: "?segs \<noteq> []" by simp
    then have "hd ?segs \<in> set ?segs" by simp
    then have "0 < hd ?segs" using assms(1) by blast
    moreover have "?total = hd ?segs + sum_list (tl ?segs)"
      using ne by (cases ?segs) simp_all
    moreover have "0 \<le> sum_list (tl ?segs)"
      using nonneg ne by (intro sum_list_nonneg) (auto dest: list.set_sel(2))
    ultimately have pos: "0 < ?total" by linarith
    have a: "0 < t1 * ?total" using h(2) pos by simp
    have b: "t1 * ?total \<le> ?total" using h(3) pos by simp
    from walkLocate_reaches [OF nonneg _ _ a b, of 0]
    obtain k f where w: "walkLocate ?segs (t1 * ?total) 0 0 = Some (k, f)"
      and k: "k < length ?segs" and f: "0 < f" "f \<le> 1"
      and s: "sum_list (take k ?segs) + f * ?segs ! k = t1 * ?total"
      by auto
    have k': "k + 1 < length path" using k by (simp add: length_segmentLengths)
    then have "?segs ! k = distance (path ! k) (path ! (k + 1))"
      by (simp add: nth_segmentLengths)
    with s have s': "sum_list (take k ?segs) + f * distance (path ! k) (path ! (k + 1)) = t1 * ?total"
      by simp
    have "interpolateAlongPath path t1 = walkPath path ?segs (t1 * ?total) 0 0"
      using h pos by (auto simp add: interpolateAlongPath_def Let_def)
    also have "\<dots> = (fst (path ! k) + (fst (path ! (k + 1)) - fst (path ! k)) * f,
                      snd (path ! k) + (snd (path ! (k + 1)) - snd (path ! k)) * f)"
      by (simp add: walkPath_locate w)
    finally show ?thesis using w k' f s' by blast
  qed
  from mono l1 l2 loc show ?thesis by blast
qed

lemma segmentLengths_example: "segmentLengths [(0, 0), (1, 0), (3, 0)] = [1, 2]"
  by (simp add: segmentLengths_def distance_def upt_rec)

text \<open>
  A path of segment lengths 1 and 2, sampled at one third and two thirds.
\<close>

theorem sampler_monotone_witness:
  "traveled [(0, 0), (1, 0), (3, 0)] (1 / 3) \<le> traveled [(0, 0), (1, 0), (3, 0)] (2 / 3) \<and>
   traveled [(0, 0), (1, 0), (3, 0)] (1 / 3) = 1 \<and>
   traveled [(0, 0), (1, 0), (3, 0)] (2 / 3) = 2 \<and>
   interpolateAlongPath [(0, 0), (1, 0), (3, 0)] (2 / 3) = (2, 0)"
proof -
  let ?p = "[(0, 0), (1, 0), (3, 0)] :: Position list"
  have h1: "\<forall>l \<in> set (segmentLengths ?p). 0 < l"
    by (simp add: segmentLengths_example)
  have w: "walkLocate [1, 2] 2 0 0 = Some (1, 1 / 2)"
    by (simp add: walkLocate.simps [of _ _ 0] walkLocate.simps [of _ _ "Suc 0"])
  have t: "2 / 3 * sum_list [1, 2 :: real] = 2"
    by simp
  have g: "2 \<le> length ?p \<and> (0::real) < 2 / 3 \<and> (2 / 3 :: real) < 1" by simp
  have q: "(0::real) \<le> 1 / 3" "(1 / 3 :: real) \<le> 2 / 3" "(2 / 3 :: real) \<le> 1"
    "(0::real) \<le> 2 / 3" "(2 / 3 :: real) \<le> 2 / 3"
    by simp_all
  from sampler_monotone [OF h1 q(1) q(2) q(3)]
  have a: "traveled ?p (1 / 3) \<le> traveled ?p (2 / 3)"
    and b: "traveled ?p (1 / 3) = 1"
    and c: "traveled ?p (2 / 3) = 2"
    by (simp_all add: segmentLengths_example)
  from sampler_monotone [OF h1 q(4) q(5) q(3)] g
  have "\<exists>k f. walkLocate (segmentLengths ?p) (2 / 3 * sum_list (segmentLengths ?p)) 0 0 = Some (k, f) \<and>
           interpolateAlongPath ?p (2 / 3) =
             (fst (?p ! k) + (fst (?p ! (k + 1)) - fst (?p ! k)) * f,
              snd (?p ! k) + (snd (?p ! (k + 1)) - snd (?p ! k)) * f)"
    by blast
  then obtain k f where "walkLocate [1, 2] 2 0 0 = Some (k, f)"
    and i: "interpolateAlongPath ?p (2 / 3) =
             (fst (?p ! k) + (fst (?p ! (k + 1)) - fst (?p ! k)) * f,
              snd (?p ! k) + (snd (?p ! (k + 1)) - snd (?p ! k)) * f)"
    unfolding segmentLengths_example t by blast
  with w have "k = 1" "f = 1 / 2" by simp_all
  with i have d: "interpolateAlongPath ?p (2 / 3) = (2, 0)"
    by simp
  from a b c d show ?thesis by simp
qed

section \<open>Ingestion\<close>

lemma ingestTrain_unresolved:
  "look (currentStation tr) = None \<Longrightarrow> ingestTrain look segs now tr states = states"
  by (simp add: ingestTrain_def)

lemma ingestTrain_other:
  "id' tr \<noteq> k \<Longrightarrow> map_of (ingestTrain look segs now tr states) k = map_of states k"
  by (simp add: ingestTrain_def Let_def AList.update_conv' split: option.splits)

lemma fold_ingestTrain_other:
  "k \<notin> id' ` set ts \<Longrightarrow>
   map_of (fold (ingestTrain look segs now) ts states) k = map_of states k"
  by (induction ts arbitrary: states) (auto simp add: ingestTrain_other)

lemma ingestTrain_transition:
  assumes "map_of states (id' tr) = Some existing"
    and "look (currentStation tr) = Some coords"
    and "coords \<noteq> position (current existing)"
  shows "map_of (ingestTrain look segs now tr states) (id' tr)
           = Some (transitioned segs now tr coords existing)"
proof -
  have "fst coords \<noteq> fst (position (current existing)) \<or>
        snd coords \<noteq> snd (position (current existing))"
    using assms(3) by (auto simp add: prod_eq_iff)
  then show ?thesis
    using assms(1,2)
    by (simp add: ingestTrain_def Let_def AList.update_conv' transitioned_def)
qed

lemma map_of_filter_keys:
  "map_of (filter (\<lambda>(k, st). k \<in> A) al) k = (if k \<in> A then map_of al k else None)"
  by (induction al) auto

lemma ingest_map_of:
  "map_of (ingest look segs now (Some ts) states) k =
     (if k \<in> id' ` set ts then map_of (fold (ingestTrain look segs now) ts states) k else None)"
  by (simp add: ingest_def Let_def map_of_filter_keys)

lemma ingest_transition:
  assumes "tr \<in> set ts" and "distinct (map id' ts)"
    and "map_of states (id' tr) = Some existing"
    and "look (currentStation tr) = Some coords"
    and "coords \<noteq> position (current existing)"
  shows "map_of (ingest look segs now (Some ts) states) (id' tr)
           = Some (transitioned segs now tr coords existing)"
proof -
  from assms(1) obtain pre post where ts: "ts = pre @ tr # post"
    by (auto simp add: in_set_conv_decomp)
  with assms(2) have a: "id' tr \<notin> id' ` set pre" and b: "id' tr \<notin> id' ` set post"
    by auto
  let ?s1 = "fold (ingestTrain look segs now) pre states"
  have "map_of ?s1 (id' tr) = Some existing"
    using fold_ingestTrain_other [OF a] assms(3) by simp
  then have "map_of (ingestTrain look segs now tr ?s1) (id' tr)
               = Some (transitioned segs now tr coords existing)"
    using assms(4,5) by (rule ingestTrain_transition [where look = look])
  then have "map_of (fold (ingestTrain look segs now) ts states) (id' tr)
               = Some (transitioned segs now tr coords existing)"
    using fold_ingestTrain_other [OF b] by (simp add: ts)
  then show ?thesis
    using assms(1) by (simp add: ingest_map_of)
qed

text \<open>
  Claim C1, as the code has it. When a batch (one entry per vehicle) reports a known
  vehicle at a station whose coordinate differs from the position of the record's
  current keyframe, the ingestion puts a record in its place whose previous keyframe has
  the last rendered position (the position of the current keyframe, should no position
  have been rendered) and the timestamp of the old current keyframe, whose current
  keyframe is the new coordinate at the ingestion time, and whose track path is what the
  path resolver returns from the last rendered position to the new coordinate on the
  line of the train.
\<close>

theorem transition_keyframes:
  assumes "tr \<in> set ts" and "distinct (map id' ts)"
    and "map_of states (id' tr) = Some existing"
    and "look (currentStation tr) = Some coords"
    and "coords \<noteq> position (current existing)"
  shows "\<exists>new. map_of (ingest look segs now (Some ts) states) (id' tr) = Some new \<and>
           previous new =
             Some \<lparr> position = (case lastInterpolatedPosition existing of
                                  Some p \<Rightarrow> p | None \<Rightarrow> position (current existing)),
                    timestamp = timestamp (current existing) \<rparr> \<and>
           current new = \<lparr> position = coords, timestamp = now \<rparr> \<and>
           trackPath new =
             findTrackPath segs
               (case lastInterpolatedPosition existing of
                  Some p \<Rightarrow> p | None \<Rightarrow> position (current existing))
               coords (getLineDisplayName (lineId tr))"
  using ingest_transition [where look = look and segs = segs and now = now, OF assms]
  by (simp add: transitioned_def Let_def)

text \<open>
  A vehicle first seen at station A at time 1000, reported at station B at time 2000.
\<close>

theorem transition_keyframes_witness:
  "\<exists>new. map_of (ingest look0 idx0 2000 (Some [trainAt ''B'']) [(''v1'', state0)]) ''v1'' = Some new \<and>
     previous new = Some \<lparr> position = (0, 0), timestamp = 1000 \<rparr> \<and>
     current new = \<lparr> position = (2, 0), timestamp = 2000 \<rparr> \<and>
     trackPath new = findTrackPath idx0 (0, 0) (2, 0) ''Central''"
proof -
  have h1: "trainAt ''B'' \<in> set [trainAt ''B'']" by simp
  have h2: "distinct (map id' [trainAt ''B''])" by simp
  have h3: "map_of [(''v1'', state0)] (id' (trainAt ''B'')) = Some state0"
    by (simp add: trainAt_def)
  have h4: "look0 (currentStation (trainAt ''B'')) = Some (2, 0)"
    by (simp add: trainAt_def look0_def)
  have h5: "(2, 0) \<noteq> position (current state0)"
    by (simp add: state0_def)
  have n: "getLineDisplayName (lineId (trainAt ''B'')) = ''Central''"
    by (simp add: getLineDisplayName_def LINE_ID_TO_NAME_def trainAt_def)
  have i: "id' (trainAt ''B'') = ''v1''" by (simp add: trainAt_def)
  have l: "lastInterpolatedPosition state0 = Some (0, 0)" "timestamp (current state0) = 1000"
    by (simp_all add: state0_def)
  from transition_keyframes [where look = look0 and segs = idx0 and now = 2000, OF h1 h2 h3 h4 h5]
  show ?thesis
    unfolding n i l by simp
qed

text \<open>
  Claim C1 as stated fails: the vehicle is first seen at station A at time 1000 and then
  reported at station B at time 2000; the previous keyframe of the new record carries the
  timestamp 1000 of the old current keyframe, not the ingestion time 2000.
\<close>

theorem previous_timestamp_counterexample:
  "ingest look0 idx0 1000 (Some [trainAt ''A'']) [] = [(''v1'', state0)] \<and>
   look0 (currentStation (trainAt ''B'')) = Some (2, 0) \<and>
   (2, 0) \<noteq> position (current state0) \<and>
   lastInterpolatedPosition state0 = Some (0, 0) \<and>
   map_option previous (map_of (ingest look0 idx0 2000 (Some [trainAt ''B'']) [(''v1'', state0)]) ''v1'')
     = Some (Some \<lparr> position = (0, 0), timestamp = 1000 \<rparr>) \<and>
   map_option previous (map_of (ingest look0 idx0 2000 (Some [trainAt ''B'']) [(''v1'', state0)]) ''v1'')
     \<noteq> Some (Some \<lparr> position = (0, 0), timestamp = 2000 \<rparr>)"
  by (simp add: ingest_def ingestTrain_def look0_def trainAt_def state0_def Let_def)

text \<open>
  Claim C2. At a station change of a known vehicle the velocity of the new record is the
  velocity of the record it replaces; it is not reset.
\<close>

theorem velocity_carry_over:
  assumes "tr \<in> set ts" and "distinct (map id' ts)"
    and "map_of states (id' tr) = Some existing"
    and "look (currentStation tr) = Some coords"
    and "coords \<noteq> position (current existing)"
  shows "map_option velocity (map_of (ingest look segs now (Some ts) states) (id' tr))
           = Some (velocity existing)"
  using ingest_transition [where look = look and segs = segs and now = now, OF assms]
  by (simp add: transitioned_def Let_def)

text \<open>
  A record with velocity \<open>(3, 4)\<close> keeps it when its vehicle is reported at station B.
\<close>

theorem velocity_carry_over_witness:
  "map_option velocity (map_of (ingest look0 idx0 2000 (Some [trainAt ''B'']) [(''v1'', state1)]) ''v1'')
     = Some (3, 4)"
proof -
  have h1: "trainAt ''B'' \<in> set [trainAt ''B'']" by simp
  have h2: "distinct (map id' [trainAt ''B''])" by simp
  have h3: "map_of [(''v1'', state1)] (id' (trainAt ''B'')) = Some state1"
    by (simp add: trainAt_def)
  have h4: "look0 (currentStation (trainAt ''B'')) = Some (2, 0)"
    by (simp add: trainAt_def look0_def)
  have h5: "(2, 0) \<noteq> position (current state1)"
    by (simp add: state1_def state0_def)
  have i: "id' (trainAt ''B'') = ''v1''" by (simp add: trainAt_def)
  have v: "velocity state1 = (3, 4)" by (simp add: state1_def)
  from velocity_carry_over [where look = look0 and segs = idx0 and now = 2000, OF h1 h2 h3 h4 h5]
  show ?thesis unfolding i v .
qed

text \<open>
  Claim C9. When the lookup of the station fails for a vehicle of the batch (for every
  entry of the batch that bears its id; the batches the API delivers have one entry per
  id), the ingestion leaves the record of that vehicle as it was: neither changed nor
  removed by the eviction of the same batch, and a vehicle without record stays without.
  The ingestion is a total function: it raises nothing.
\<close>

theorem lookup_failure_skips:
  assumes "tr \<in> set ts"
    and "\<forall>u \<in> set ts. id' u = id' tr \<longrightarrow> look (currentStation u) = None"
  shows "map_of (ingest look segs now (Some ts) states) (id' tr) = map_of states (id' tr)"
proof -
  have "map_of (fold (ingestTrain look segs now) us st) (id' tr) = map_of st (id' tr)"
    if "\<forall>u \<in> set us. id' u = id' tr \<longrightarrow> look (currentStation u) = None" for us st
    using that
  proof (induction us arbitrary: st)
    case Nil
    show ?case by simp
  next
    case (Cons u us)
    have "map_of (ingestTrain look segs now u st) (id' tr) = map_of st (id' tr)"
    proof (cases "id' u = id' tr")
      case True
      with Cons.prems have "look (currentStation u) = None" by simp
      then show ?thesis by (simp add: ingestTrain_unresolved)
    next
      case False
      then show ?thesis by (simp add: ingestTrain_other)
    qed
    with Cons show ?case by simp
  qed
  with assms show ?thesis by (simp add: ingest_map_of)
qed

text \<open>
  The record of a vehicle reported at an unknown station stays as it is.
\<close>

theorem lookup_failure_skips_witness:
  "map_of (ingest look0 idx0 2000 (Some [trainAt ''Nowhere'']) [(''v1'', state0)]) ''v1'' = Some state0"
proof -
  have h1: "trainAt ''Nowhere'' \<in> set [trainAt ''Nowhere'']" by simp
  have h2: "\<forall>u \<in> set [trainAt ''Nowhere'']. id' u = id' (trainAt ''Nowhere'') \<longrightarrow>
              look0 (currentStation u) = None"
    by (simp add: trainAt_def look0_def)
  have i: "id' (trainAt ''Nowhere'') = ''v1''" by (simp add: trainAt_def)
  from lookup_failure_skips [where look = look0 and segs = idx0 and now = 2000
      and states = "[(''v1'', state0)]", OF h1 h2]
  show ?thesis unfolding i by simp
qed

section \<open>Eviction\<close>

lemma in_update_other:
  "k \<noteq> k' \<Longrightarrow> (k, s) \<in> set (AList.update k' v al) \<longleftrightarrow> (k, s) \<in> set al"
  by (induction al) auto

lemma ingestTrain2_other:
  "id' tr \<noteq> k \<Longrightarrow> (k, s) \<in> set (ingestTrain2 look now tr states) \<longleftrightarrow> (k, s) \<in> set states"
  by (simp add: ingestTrain2_def Let_def in_update_other split: option.splits)

lemma fold_ingestTrain2_other:
  "k \<notin> id' ` set ts \<Longrightarrow>
   (k, s) \<in> set (fold (ingestTrain2 look now) ts states) \<longleftrightarrow> (k, s) \<in> set states"
  by (induction ts arbitrary: states) (auto simp add: ingestTrain2_other)

text \<open>
  Claim C8. After the ingestion of a batch, an id that is not in the batch has no record
  in the track-path variant (removed at once); in the variant with the grace window its
  records are exactly those it had before whose current keyframe is at most 60000
  milliseconds old.
\<close>

theorem eviction_of_absent_ids:
  assumes "k \<notin> id' ` set ts"
  shows "k \<notin> fst ` set (ingest look segs now (Some ts) states) \<and>
         map_of (ingest look segs now (Some ts) states) k = None \<and>
         (\<forall>st. (k, st) \<in> set (ingest2 look now (Some ts) states2) \<longleftrightarrow>
                (k, st) \<in> set states2 \<and> \<not> now - timestamp2 (current2 st) > 60000)"
proof -
  have 1: "k \<notin> fst ` set (ingest look segs now (Some ts) states)"
    using assms by (auto simp add: ingest_def Let_def)
  then have 2: "map_of (ingest look segs now (Some ts) states) k = None"
    by (simp add: map_of_eq_None_iff)
  have 3: "(k, st) \<in> set (ingest2 look now (Some ts) states2) \<longleftrightarrow>
           (k, st) \<in> set states2 \<and> \<not> now - timestamp2 (current2 st) > 60000" for st
    using assms fold_ingestTrain2_other [OF assms, of st look now states2]
    by (auto simp add: ingest2_def Let_def)
  from 1 2 3 show ?thesis by blast
qed

text \<open>
  An empty batch removes the record at once in the first variant; in the second the
  record, last updated at time 1000, survives the batch of time 16000 and is removed by
  the batch of time 61001.
\<close>

theorem eviction_of_absent_ids_witness:
  "map_of (ingest look0 idx0 16000 (Some []) [(''v1'', state0)]) ''v1'' = None \<and>
   (''v1'', state2) \<in> set (ingest2 look0 16000 (Some []) [(''v1'', state2)]) \<and>
   (''v1'', state2) \<notin> set (ingest2 look0 61001 (Some []) [(''v1'', state2)])"
proof -
  have h: "''v1'' \<notin> id' ` set []" by simp
  have t: "timestamp2 (current2 state2) = 1000" by (simp add: state2_def)
  from eviction_of_absent_ids [OF h, of look0 idx0 16000 "[(''v1'', state0)]" "[(''v1'', state2)]"]
  have a: "map_of (ingest look0 idx0 16000 (Some []) [(''v1'', state0)]) ''v1'' = None"
    and b: "(''v1'', state2) \<in> set (ingest2 look0 16000 (Some []) [(''v1'', state2)])"
    by (simp_all add: t)
  from eviction_of_absent_ids [OF h, of look0 idx0 61001 "[(''v1'', state0)]" "[(''v1'', state2)]"]
  have c: "(''v1'', state2) \<notin> set (ingest2 look0 61001 (Some []) [(''v1'', state2)])"
    by (simp add: t)
  from a b c show ?thesis by simp
qed

section \<open>The trail\<close>

lemma slice_from_last:
  "0 < n \<Longrightarrow> slice_from xs (- int n) = drop (length xs - n) xs"
  by (auto simp add: slice_from_def slice_def Let_def max_def nat_diff_distrib')

lemma in_update_cases:
  "(k, s) \<in> set (AList.update k' v al) \<Longrightarrow> (k, s) = (k', v) \<or> (k, s) \<in> set al"
  by (induction al) (auto split: if_splits)

lemma ingestTrain_trails_ok:
  assumes "trails_ok states"
  shows "trails_ok (ingestTrain look segs now tr states)"
proof (cases "look (currentStation tr)")
  case None
  with assms show ?thesis by (simp add: ingestTrain_def)
next
  case (Some coords)
  show ?thesis
  proof (cases "map_of states (id' tr)")
    case None
    have "trail_ok \<lparr> current = \<lparr> position = coords, timestamp = now \<rparr>, previous = None,
             train = tr, trail = [coords], trackPath = None,
             lastInterpolatedPosition = Some coords, velocity = (0, 0) \<rparr>"
      by (simp add: trail_ok_def TRAIL_LENGTH_def)
    with assms show ?thesis
      unfolding trails_ok_def
      by (auto simp add: ingestTrain_def Some None dest!: in_update_cases)
  next
    case ex: (Some existing)
    then have "(id' tr, existing) \<in> set states" by (rule map_of_SomeD)
    with assms have ok: "trail_ok existing" unfolding trails_ok_def by auto
    obtain new where r: "ingestTrain look segs now tr states = AList.update (id' tr) new states"
      and t: "trail new = trail existing"
      by (cases "fst coords \<noteq> fst (position (current existing)) \<or>
                 snd coords \<noteq> snd (position (current existing))")
         (simp_all add: ingestTrain_def Some ex Let_def)
    from ok t have "trail_ok new" by (simp add: trail_ok_def)
    with assms show ?thesis
      unfolding trails_ok_def r
      by (auto dest!: in_update_cases)
  qed
qed

lemma ingest_trails_ok:
  assumes "trails_ok states"
  shows "trails_ok (ingest look segs now trains states)"
proof (cases trains)
  case None
  with assms show ?thesis by (simp add: ingest_def)
next
  case (Some ts)
  have "trails_ok (fold (ingestTrain look segs now) ts st)" if "trails_ok st" for st
    using that by (induction ts arbitrary: st) (simp_all add: ingestTrain_trails_ok)
  with assms have "trails_ok (fold (ingestTrain look segs now) ts states)" by simp
  then show ?thesis
    by (auto simp add: ingest_def Some Let_def trails_ok_def)
qed

text \<open>What one frame does to the trail of a record whose trail is not empty.\<close>

lemma animateTrain_trail:
  assumes "trail st \<noteq> []"
  shows "\<exists>st'. animateTrain now dt st = Inr st' \<and>
           (case previous st of
              None \<Rightarrow> trail st' = trail st
            | Some prev \<Rightarrow>
                (\<exists>pos. lastInterpolatedPosition st' = Some pos \<and>
                   trail st' =
                     (if \<bar>fst pos - fst (last (trail st))\<bar> + \<bar>snd pos - snd (last (trail st))\<bar> > 0.00003
                      then drop (length (trail st @ [pos]) - 20) (trail st @ [pos])
                      else trail st)))"
proof (cases "previous st")
  case None
  then show ?thesis by (simp add: animateTrain_def)
next
  case (Some prev)
  have s: "slice_from xs (- TRAIL_LENGTH) = drop (length xs - 20) xs" for xs :: "Position list"
    using slice_from_last [of 20 xs] by (simp add: TRAIL_LENGTH_def)
  have l: "trail st ! (length (trail st) - Suc 0) = last (trail st)"
    using assms by (simp add: last_conv_nth)
  show ?thesis
    using assms by (auto simp add: animateTrain_def Some Let_def s l simp del: length_append)
qed

lemma animateTrain_trail_ok:
  assumes "trail_ok st"
  shows "\<exists>st'. animateTrain now dt st = Inr st' \<and> trail_ok st'"
proof -
  from assms have ne: "trail st \<noteq> []" by (simp add: trail_ok_def)
  from animateTrain_trail [OF ne, of now dt] obtain st' where
    r: "animateTrain now dt st = Inr st'" and
    t: "case previous st of
              None \<Rightarrow> trail st' = trail st
            | Some prev \<Rightarrow>
                (\<exists>pos. lastInterpolatedPosition st' = Some pos \<and>
                   trail st' =
                     (if \<bar>fst pos - fst (last (trail st))\<bar> + \<bar>snd pos - snd (last (trail st))\<bar> > 0.00003
                      then drop (length (trail st @ [pos]) - 20) (trail st @ [pos])
                      else trail st))"
    by blast
  have "trail_ok st'"
  proof (cases "previous st")
    case None
    with t assms show ?thesis by (simp add: trail_ok_def)
  next
    case (Some prev)
    with t obtain pos where
      "trail st' = trail st \<or> trail st' = drop (length (trail st @ [pos]) - 20) (trail st @ [pos])"
      by (auto split: if_splits)
    then show ?thesis
      using assms by (auto simp add: trail_ok_def TRAIL_LENGTH_def)
  qed
  with r show ?thesis by blast
qed

lemma animateAll_trails_ok:
  assumes "trails_ok states"
  shows "\<exists>states'. animateAll now dt states = Inr states' \<and> trails_ok states'"
  using assms
proof (induction states)
  case Nil
  show ?case by (simp add: trails_ok_def)
next
  case (Cons p states)
  obtain k st where p: "p = (k, st)" by (cases p)
  from Cons.prems p have "trail_ok st" and "trails_ok states"
    by (simp_all add: trails_ok_def)
  from animateTrain_trail_ok [OF this(1), of now dt] Cons.IH [OF this(2)]
  obtain st' states' where "animateTrain now dt st = Inr st'" "trail_ok st'"
    "animateAll now dt states = Inr states'" "trails_ok states'"
    by blast
  then show ?case by (simp add: p trails_ok_def)
qed

lemma animate_trails_ok:
  assumes "trails_ok (fst s)"
  shows "\<exists>s'. animate now s = Inr s' \<and> trails_ok (fst s')"
proof -
  obtain states lf where s: "s = (states, lf)" by (cases s)
  with assms have "trails_ok states" by simp
  from animateAll_trails_ok [OF this, of now "min (real_of_int (now - lf) / 1000) 0.1"]
  show ?thesis by (auto simp add: animate_def s Let_def)
qed

lemma run_trails_ok:
  assumes "trails_ok (fst s)"
  shows "\<exists>s'. run look segs events s = Inr s' \<and> trails_ok (fst s')"
  using assms
proof (induction events arbitrary: s)
  case Nil
  then show ?case by simp
next
  case (Cons e events)
  show ?case
  proof (cases e)
    case (Ingest now trains)
    have "trails_ok (fst (ingest look segs now trains (fst s), snd s))"
      using Cons.prems by (simp add: ingest_trails_ok)
    from Cons.IH [OF this] show ?thesis by (simp add: Ingest)
  next
    case (Tick now)
    from animate_trails_ok [OF Cons.prems, of now] obtain s1 where
      "animate now s = Inr s1" "trails_ok (fst s1)" by blast
    with Cons.IH [OF this(2)] show ?thesis by (simp add: Tick)
  qed
qed

text \<open>
  Claim C7. The bound \<open>TRAIL_LENGTH\<close> is 20. From the empty store every sequence of data
  arrivals and frames runs without raising, and afterwards every record has a trail that
  is not empty and has at most 20 entries. A frame leaves the trail of a record without
  previous keyframe alone; for one with a previous keyframe it appends the position just
  rendered exactly when the Manhattan distance of that position from the last entry of
  the trail exceeds 0.00003, and keeps the last 20 entries, so the oldest entries go
  first.
\<close>

theorem trail_bound:
  "TRAIL_LENGTH = 20 \<and>
   (\<exists>states lastFrameTime.
      run look segs events ([], t0) = Inr (states, lastFrameTime) \<and>
      (\<forall>(k, st) \<in> set states. trail st \<noteq> [] \<and> int (length (trail st)) \<le> TRAIL_LENGTH)) \<and>
   (trail st \<noteq> [] \<longrightarrow>
      (\<exists>st'. animateTrain now dt st = Inr st' \<and>
         (case previous st of
            None \<Rightarrow> trail st' = trail st
          | Some prev \<Rightarrow>
              (\<exists>pos. lastInterpolatedPosition st' = Some pos \<and>
                 trail st' =
                   (if \<bar>fst pos - fst (last (trail st))\<bar> + \<bar>snd pos - snd (last (trail st))\<bar> > 0.00003
                    then drop (length (trail st @ [pos]) - 20) (trail st @ [pos])
                    else trail st)))))"
proof -
  have "trails_ok (fst ([], t0))" by (simp add: trails_ok_def)
  from run_trails_ok [OF this, of look segs events]
  obtain states lf where "run look segs events ([], t0) = Inr (states, lf)" "trails_ok states"
    by auto
  then have "\<exists>states lastFrameTime.
      run look segs events ([], t0) = Inr (states, lastFrameTime) \<and>
      (\<forall>(k, st) \<in> set states. trail st \<noteq> [] \<and> int (length (trail st)) \<le> TRAIL_LENGTH)"
    unfolding trails_ok_def trail_ok_def by blast
  then show ?thesis
    using animateTrain_trail [of st now dt] by (simp add: TRAIL_LENGTH_def)
qed

text \<open>
  The example run: the vehicle is seen at station A at time 1000 and at station B at time
  2000, with no track geometry, and a frame is drawn at time 9000, half way through the
  animation.
\<close>

lemma smoothDamp_example_x: "smoothDamp 0 1 0 SMOOTH_TIME (1 / 10) = (41 / 666, 2500 / 2331)"
  by (simp add: smoothDamp_def SMOOTH_TIME_def Let_def)

lemma smoothDamp_example_y: "smoothDamp 0 0 0 SMOOTH_TIME (1 / 10) = (0, 0)"
  by (simp add: smoothDamp_def SMOOTH_TIME_def Let_def)

lemma animateTrain_stateB: "animateTrain 9000 (1 / 10) stateB =
   Inr (stateB \<lparr> velocity := (2500 / 2331, 0), lastInterpolatedPosition := Some (41 / 666, 0),
                 trail := [(0, 0), (41 / 666, 0)] \<rparr>)"
  by (simp add: animateTrain_def stateB_def Let_def ANIMATION_DURATION_def easeInOutQuad_def
        lerp_def smoothDamp_example_x smoothDamp_example_y slice_from_def slice_def TRAIL_LENGTH_def)

lemma run_events0: "run look0 Map.empty events0 ([], 0) =
   Inr ([(''v1'', stateB \<lparr> velocity := (2500 / 2331, 0),
                             lastInterpolatedPosition := Some (41 / 666, 0),
                             trail := [(0, 0), (41 / 666, 0)] \<rparr>)], 9000)"
proof -
  have 1: "ingest look0 Map.empty 1000 (Some [trainAt ''A'']) [] = [(''v1'', state0)]"
    by (simp add: ingest_def ingestTrain_def look0_def trainAt_def state0_def Let_def)
  have 2: "ingest look0 Map.empty 2000 (Some [trainAt ''B'']) [(''v1'', state0)] = [(''v1'', stateB)]"
    by (simp add: ingest_def ingestTrain_def look0_def trainAt_def state0_def stateB_def Let_def
          findTrackPath_def)
  have 3: "animate 9000 ([(''v1'', stateB)], 0) =
     Inr ([(''v1'', stateB \<lparr> velocity := (2500 / 2331, 0),
                             lastInterpolatedPosition := Some (41 / 666, 0),
                             trail := [(0, 0), (41 / 666, 0)] \<rparr>)], 9000)"
    by (simp add: animate_def Let_def animateTrain_stateB)
  show ?thesis
    by (simp add: events0_def 1 2 3)
qed

text \<open>
  A vehicle seen at station A, then at station B, then a frame 7 seconds later: the
  rendered position has moved and is appended to the trail.
\<close>

theorem trail_bound_witness:
  "\<exists>st lf. run look0 Map.empty events0 ([], 0) = Inr ([(''v1'', st)], lf) \<and>
     trail st = [(0, 0), (41 / 666, 0)] \<and> int (length (trail st)) \<le> TRAIL_LENGTH \<and>
     (\<exists>st'. animateTrain 9000 (1 / 10) stateB = Inr st' \<and> trail st' = [(0, 0), (41 / 666, 0)])"
proof -
  let ?st = "stateB \<lparr> velocity := (2500 / 2331, 0),
                      lastInterpolatedPosition := Some (41 / 666, 0),
                      trail := [(0, 0), (41 / 666, 0)] \<rparr>"
  from trail_bound [of look0 Map.empty events0 0 stateB 9000 "1 / 10"]
  obtain states lf where r: "run look0 Map.empty events0 ([], 0) = Inr (states, lf)"
    and b: "\<forall>(k, st) \<in> set states. trail st \<noteq> [] \<and> int (length (trail st)) \<le> TRAIL_LENGTH"
    and t: "trail stateB \<noteq> [] \<longrightarrow>
      (\<exists>st'. animateTrain 9000 (1 / 10) stateB = Inr st' \<and>
         (case previous stateB of
            None \<Rightarrow> trail st' = trail stateB
          | Some prev \<Rightarrow>
              (\<exists>pos. lastInterpolatedPosition st' = Some pos \<and>
                 trail st' =
                   (if \<bar>fst pos - fst (last (trail stateB))\<bar> + \<bar>snd pos - snd (last (trail stateB))\<bar> > 0.00003
                    then drop (length (trail stateB @ [pos]) - 20) (trail stateB @ [pos])
                    else trail stateB))))"
    by blast
  from r run_events0 have "states = [(''v1'', ?st)]" by simp
  with b have "int (length (trail ?st)) \<le> TRAIL_LENGTH" by simp
  moreover have "trail stateB \<noteq> []" by (simp add: stateB_def)
  with t obtain st' where "animateTrain 9000 (1 / 10) stateB = Inr st'" by blast
  with animateTrain_stateB have "\<exists>st'. animateTrain 9000 (1 / 10) stateB = Inr st' \<and> trail st' = [(0, 0), (41 / 666, 0)]"
    by simp
  ultimately show ?thesis using run_events0 by simp
qed

end
